theory Spec2Isabelle
  imports Main "HOL-Library.Product_Lexorder"
begin

section \<open>Entities\<close>

text \<open>
  The rows of the two tables of \<^verbatim>\<open>server.js\<close>, which are also the objects of the client's
  \<^verbatim>\<open>tickets\<close> and \<^verbatim>\<open>steps\<close> arrays. The columns \<^verbatim>\<open>created_at\<close> and \<^verbatim>\<open>updated_at\<close> are
  never read by the client and are left out. Identifiers are the positive row ids that
  SQLite hands out; \<^verbatim>\<open>null\<close> in \<^verbatim>\<open>current_step_id\<close> is \<open>None\<close>.
\<close>

record ticket =
  t_id :: nat
  ticket_number :: int
  color :: string
  t_notes :: string
  current_step_id :: "nat option"
  t_order_index :: int

record step =
  s_id :: nat
  name :: string
  s_order_index :: int

section \<open>Persistence gateway: the request handlers of server.js\<close>

text \<open>
  The database holds the rows of both tables in row-id order, the two
  \<^verbatim>\<open>AUTOINCREMENT\<close> counters, and whether the connection enforces the
  \<^verbatim>\<open>FOREIGN KEY (current_step_id) REFERENCES steps(id)\<close> clause of the schema.
\<close>

record database =
  tickets_table :: "ticket list"
  steps_table :: "step list"
  tickets_seq :: nat
  steps_seq :: nat
  foreign_keys :: bool

text \<open>
  JSON request bodies. A field that is absent (\<^verbatim>\<open>undefined\<close> after destructuring) is
  \<open>None\<close>; for \<^verbatim>\<open>current_step_id\<close> the value \<open>Some None\<close> is an explicit \<^verbatim>\<open>null\<close>.
\<close>

record ticket_body =
  b_ticket_number :: "int option"
  b_color :: "string option"
  b_notes :: "string option"
  b_current_step_id :: "nat option option"
  b_order_index :: "int option"

record step_body =
  b_name :: "string option"
  b_step_order_index :: "int option"

datatype body =
    TicketRow ticket
  | StepRow step
  | TicketRows "ticket list"
  | StepRows "step list"
  | Message string
  | ErrorBody string
  | NoBody

datatype request =
    GET_tickets
  | POST_ticket ticket_body
  | PUT_ticket nat ticket_body
  | DELETE_ticket nat
  | GET_steps
  | POST_step step_body
  | PUT_step nat step_body
  | DELETE_step nat

text \<open>
  Numbers are JavaScript numbers, that is IEEE doubles; the ones met here are whole, and
  are kept as integers. \<open>js_add_one n\<close> is the value of \<^verbatim>\<open>n + 1\<close> for such a number. The
  sum is exact from -9007199254740992 (minus two to the 53rd) up to 9007199254740991.
  From there up to two to the 54th in size the doubles are the even integers, and the
  sum, lying midway between two of them, is rounded to the one with the even
  significand. Beyond that the sum is rounded back to \<open>n\<close>. So
  \<^verbatim>\<open>9007199254740992 + 1\<close> is \<^verbatim>\<open>9007199254740992\<close>.
\<close>

definition js_add_one :: "int \<Rightarrow> int" where
  "js_add_one n =
     (if - 9007199254740992 \<le> n \<and> n < 9007199254740992 then n + 1
      else if - 18014398509481984 < n \<and> n < 18014398509481984
           then (if even (n div 2) then n else n + 2)
           else n)"

text \<open>\<^verbatim>\<open>SELECT MAX(order_index)\<close>: \<^verbatim>\<open>NULL\<close> on an empty table.\<close>

fun sql_max :: "int list \<Rightarrow> int option" where
  "sql_max [] = None"
| "sql_max (x # xs) = (case sql_max xs of None \<Rightarrow> Some x | Some m \<Rightarrow> Some (max x m))"

text \<open>
  The row id of an \<^verbatim>\<open>AUTOINCREMENT\<close> insert: one more than the largest id the table
  holds or ever held.
\<close>

definition next_rowid :: "nat \<Rightarrow> nat list \<Rightarrow> nat" where
  "next_rowid seq ids = Suc (fold max ids seq)"

text \<open>JavaScript's \<^verbatim>\<open>x || d\<close> on the three kinds of field the handlers default.\<close>

definition or_string :: "string option \<Rightarrow> string \<Rightarrow> string" where
  "or_string v d = (case v of None \<Rightarrow> d | Some s \<Rightarrow> if s = [] then d else s)"

definition or_null :: "nat option option \<Rightarrow> nat option" where
  "or_null v = (case v of Some (Some k) \<Rightarrow> if k = 0 then None else Some k | _ \<Rightarrow> None)"

definition or_zero :: "int option \<Rightarrow> int" where
  "or_zero v = (case v of None \<Rightarrow> 0 | Some n \<Rightarrow> n)"

definition fk_violation :: "database \<Rightarrow> nat option \<Rightarrow> bool" where
  "fk_violation d ref =
     (case ref of None \<Rightarrow> False
      | Some k \<Rightarrow> foreign_keys d \<and> k \<notin> set (map s_id (steps_table d)))"

text \<open>
  \<^verbatim>\<open>app.post('/api/tickets')\<close>. Without a numeric \<^verbatim>\<open>order_index\<close> the index is
  \<^verbatim>\<open>(row?.m ?? -1) + 1\<close>, a JavaScript sum. A missing \<^verbatim>\<open>ticket_number\<close> breaks \<^verbatim>\<open>NOT NULL\<close>, a
  repeated one breaks \<^verbatim>\<open>UNIQUE\<close>; the statement then throws and the handler answers 500.
\<close>

definition post_ticket :: "ticket_body \<Rightarrow> database \<Rightarrow> (nat \<times> body) \<times> database" where
  "post_ticket b d =
     (let idx = (case b_order_index b of
                   Some n \<Rightarrow> n
                 | None \<Rightarrow>
                     js_add_one
                       (case sql_max (map t_order_index (tickets_table d)) of
                          None \<Rightarrow> - 1 | Some m \<Rightarrow> m));
          ref = or_null (b_current_step_id b)
      in case b_ticket_number b of
           None \<Rightarrow> ((500, ErrorBody ''Failed to create ticket''), d)
         | Some n \<Rightarrow>
             if n \<in> set (map ticket_number (tickets_table d)) \<or> fk_violation d ref
             then ((500, ErrorBody ''Failed to create ticket''), d)
             else
               (let rid = next_rowid (tickets_seq d) (map t_id (tickets_table d));
                    row = \<lparr>t_id = rid, ticket_number = n,
                           color = or_string (b_color b) ''white'',
                           t_notes = or_string (b_notes b) [],
                           current_step_id = ref, t_order_index = idx\<rparr>
                in ((201, TicketRow row),
                    d\<lparr>tickets_table := tickets_table d @ [row], tickets_seq := rid\<rparr>)))"

text \<open>\<^verbatim>\<open>Object\<close>-style overwrite of the columns a body names.\<close>

definition apply_ticket_body :: "ticket_body \<Rightarrow> ticket \<Rightarrow> ticket" where
  "apply_ticket_body b t =
     t\<lparr>color := (case b_color b of None \<Rightarrow> color t | Some c \<Rightarrow> c),
       t_notes := (case b_notes b of None \<Rightarrow> t_notes t | Some n \<Rightarrow> n),
       current_step_id := (case b_current_step_id b of None \<Rightarrow> current_step_id t | Some r \<Rightarrow> r),
       ticket_number := (case b_ticket_number b of None \<Rightarrow> ticket_number t | Some n \<Rightarrow> n),
       t_order_index := (case b_order_index b of None \<Rightarrow> t_order_index t | Some i \<Rightarrow> i)\<rparr>"

text \<open>
  \<^verbatim>\<open>app.put('/api/tickets/:id')\<close>. The \<^verbatim>\<open>SET\<close> list always holds
  \<^verbatim>\<open>updated_at = CURRENT_TIMESTAMP\<close>, so the statement is well formed for every body.
  With no row of that id nothing is updated and the final \<^verbatim>\<open>SELECT\<close> yields nothing.
\<close>

definition put_ticket :: "nat \<Rightarrow> ticket_body \<Rightarrow> database \<Rightarrow> (nat \<times> body) \<times> database" where
  "put_ticket i b d =
     (case find (\<lambda>t. t_id t = i) (tickets_table d) of
        None \<Rightarrow> ((200, NoBody), d)
      | Some old \<Rightarrow>
          if (case b_ticket_number b of
                None \<Rightarrow> False
              | Some n \<Rightarrow> \<exists>t \<in> set (tickets_table d). t_id t \<noteq> i \<and> ticket_number t = n)
             \<or> (case b_current_step_id b of None \<Rightarrow> False | Some r \<Rightarrow> fk_violation d r)
          then ((500, ErrorBody ''Failed to update ticket''), d)
          else ((200, TicketRow (apply_ticket_body b old)),
                d\<lparr>tickets_table :=
                    map (\<lambda>t. if t_id t = i then apply_ticket_body b t else t) (tickets_table d)\<rparr>))"

text \<open>\<^verbatim>\<open>app.delete('/api/tickets/:id')\<close>.\<close>

definition delete_ticket :: "nat \<Rightarrow> database \<Rightarrow> (nat \<times> body) \<times> database" where
  "delete_ticket i d =
     (if i \<in> set (map t_id (tickets_table d))
      then ((200, Message ''Ticket deleted successfully''),
            d\<lparr>tickets_table := filter (\<lambda>t. t_id t \<noteq> i) (tickets_table d)\<rparr>)
      else ((404, ErrorBody ''Ticket not found''), d))"

text \<open>
  \<^verbatim>\<open>app.post('/api/steps')\<close>: the row is inserted with \<^verbatim>\<open>order_index || 0\<close>; a missing
  \<^verbatim>\<open>name\<close> breaks \<^verbatim>\<open>NOT NULL\<close>.
\<close>

definition post_step :: "step_body \<Rightarrow> database \<Rightarrow> (nat \<times> body) \<times> database" where
  "post_step b d =
     (case b_name b of
        None \<Rightarrow> ((500, ErrorBody ''Failed to create step''), d)
      | Some nm \<Rightarrow>
          (let rid = next_rowid (steps_seq d) (map s_id (steps_table d));
               row = \<lparr>s_id = rid, name = nm, s_order_index = or_zero (b_step_order_index b)\<rparr>
           in ((201, StepRow row),
               d\<lparr>steps_table := steps_table d @ [row], steps_seq := rid\<rparr>)))"

text \<open>
  \<^verbatim>\<open>app.put('/api/steps/:id')\<close>. The handler collects one assignment per field present and
  joins them into the \<^verbatim>\<open>SET\<close> clause; \<open>step_updates\<close> is that list. SQLite's grammar asks
  for at least one assignment, so \<^verbatim>\<open>db.prepare\<close> throws on an empty list and the
  \<^verbatim>\<open>catch\<close> block answers 500.
\<close>

datatype step_assignment = SetName string | SetOrderIndex int

definition step_updates :: "step_body \<Rightarrow> step_assignment list" where
  "step_updates b =
     (case b_name b of None \<Rightarrow> [] | Some nm \<Rightarrow> [SetName nm])
     @ (case b_step_order_index b of None \<Rightarrow> [] | Some i \<Rightarrow> [SetOrderIndex i])"

fun run_step_assignment :: "step_assignment \<Rightarrow> step \<Rightarrow> step" where
  "run_step_assignment (SetName nm) s = s\<lparr>name := nm\<rparr>"
| "run_step_assignment (SetOrderIndex i) s = s\<lparr>s_order_index := i\<rparr>"

definition put_step :: "nat \<Rightarrow> step_body \<Rightarrow> database \<Rightarrow> (nat \<times> body) \<times> database" where
  "put_step i b d =
     (let updates = step_updates b
      in if updates = [] then ((500, ErrorBody ''Failed to update step''), d)
         else
           (let d' = d\<lparr>steps_table :=
                        map (\<lambda>s. if s_id s = i then fold run_step_assignment updates s else s)
                            (steps_table d)\<rparr>
            in case find (\<lambda>s. s_id s = i) (steps_table d') of
                 None \<Rightarrow> ((200, NoBody), d')
               | Some row \<Rightarrow> ((200, StepRow row), d')))"

text \<open>
  \<^verbatim>\<open>app.delete('/api/steps/:id')\<close>: first every ticket on the step is set to \<^verbatim>\<open>NULL\<close>,
  then the step row is deleted; the two statements are not in a transaction, so the
  first stays in effect when the second finds no row and the handler answers 404.
  (The schema's \<^verbatim>\<open>ON DELETE SET NULL\<close> has nothing left to do after the first statement.)
\<close>

definition delete_step :: "nat \<Rightarrow> database \<Rightarrow> (nat \<times> body) \<times> database" where
  "delete_step i d =
     (let d1 = d\<lparr>tickets_table :=
                  map (\<lambda>t. if current_step_id t = Some i then t\<lparr>current_step_id := None\<rparr> else t)
                      (tickets_table d)\<rparr>
      in if i \<in> set (map s_id (steps_table d1))
         then ((200, Message ''Step deleted successfully''),
               d1\<lparr>steps_table := filter (\<lambda>s. s_id s \<noteq> i) (steps_table d1)\<rparr>)
         else ((404, ErrorBody ''Step not found''), d1))"

text \<open>
  The two list endpoints: \<^verbatim>\<open>ORDER BY order_index ASC, ticket_number ASC\<close> for tickets and
  \<^verbatim>\<open>ORDER BY order_index ASC\<close> for steps (rows of equal key stay in row-id order).
\<close>

definition get_tickets :: "database \<Rightarrow> (nat \<times> body) \<times> database" where
  "get_tickets d =
     ((200, TicketRows (sort_key (\<lambda>t. (t_order_index t, ticket_number t)) (tickets_table d))), d)"

definition get_steps :: "database \<Rightarrow> (nat \<times> body) \<times> database" where
  "get_steps d = ((200, StepRows (sort_key s_order_index (steps_table d))), d)"

text \<open>The router.\<close>

fun handle :: "request \<Rightarrow> database \<Rightarrow> (nat \<times> body) \<times> database" where
  "handle GET_tickets d = get_tickets d"
| "handle (POST_ticket b) d = post_ticket b d"
| "handle (PUT_ticket i b) d = put_ticket i b d"
| "handle (DELETE_ticket i) d = delete_ticket i d"
| "handle GET_steps d = get_steps d"
| "handle (POST_step b) d = post_step b d"
| "handle (PUT_step i b) d = put_step i b d"
| "handle (DELETE_step i) d = delete_step i d"

section \<open>Client state (the module-level variables of the page script)\<close>

text \<open>
  \<open>tickets\<close>, \<open>steps\<close>, \<open>usedTicketNumbers\<close> (a JavaScript \<^verbatim>\<open>Set\<close>, kept as the list of its
  members in insertion order), \<open>notesSaveTimers\<close> (a \<^verbatim>\<open>Map\<close> from ticket id to timer
  handle) and the numbering switch \<^verbatim>\<open>appSettings.randomTwoDigitNumbers\<close> are the script's
  own variables. The rest is the environment the script talks to: the notices shown by
  \<^verbatim>\<open>showError\<close>, the database behind the server, whether \<^verbatim>\<open>fetch\<close> reaches the server, the
  requests issued so far, and the browser's table of pending \<^verbatim>\<open>setTimeout\<close> callbacks with
  its clock in milliseconds. Rendering, drag visuals and the settings ledger are left out.
\<close>

record pending_save =
  pt_handle :: nat
  pt_due :: nat
  pt_ticket :: nat
  pt_text :: string

record world =
  tickets :: "ticket list"
  steps :: "step list"
  usedTicketNumbers :: "int list"
  notesSaveTimers :: "nat \<rightharpoonup> nat"
  randomTwoDigitNumbers :: bool
  notices :: "string list"
  db :: database
  online :: bool
  sent :: "request list"
  timers :: "pending_save list"
  next_timer :: nat
  clock :: nat

subsection \<open>Library behaviour used by the script\<close>

definition set_add :: "int \<Rightarrow> int list \<Rightarrow> int list" where
  "set_add x xs = (if x \<in> set xs then xs else xs @ [x])"

definition set_delete :: "int \<Rightarrow> int list \<Rightarrow> int list" where
  "set_delete x xs = removeAll x xs"

text \<open>\<^verbatim>\<open>Array.prototype.findIndex\<close>: the first position that satisfies the test, or -1.\<close>

fun findIndex :: "('a \<Rightarrow> bool) \<Rightarrow> 'a list \<Rightarrow> int" where
  "findIndex P [] = - 1"
| "findIndex P (x # xs) =
     (if P x then 0 else (let i = findIndex P xs in if i = - 1 then - 1 else i + 1))"

text \<open>\<^verbatim>\<open>xs[i]\<close>: \<^verbatim>\<open>undefined\<close> (here \<open>None\<close>) outside the array.\<close>

definition at_index :: "'a list \<Rightarrow> int \<Rightarrow> 'a option" where
  "at_index xs i = (if 0 \<le> i \<and> i < int (length xs) then Some (xs ! nat i) else None)"

text \<open>
  The array holds object references: \<^verbatim>\<open>xs.find(p)\<close> followed by an assignment to the
  found object changes the first element that satisfies \<open>p\<close>, in place.
\<close>

fun assign_first :: "('a \<Rightarrow> bool) \<Rightarrow> ('a \<Rightarrow> 'a) \<Rightarrow> 'a list \<Rightarrow> 'a list" where
  "assign_first P f [] = []"
| "assign_first P f (x # xs) = (if P x then f x # xs else x # assign_first P f xs)"

text \<open>
  The start position \<^verbatim>\<open>Array.prototype.splice\<close> works at: a negative start counts from
  the end, and the result is clamped to the array.
\<close>

definition splice_start :: "int \<Rightarrow> nat \<Rightarrow> nat" where
  "splice_start start len =
     (if start < 0 then nat (max (int len + start) 0) else min (nat start) len)"

definition showError :: "string \<Rightarrow> world \<Rightarrow> world" where
  "showError msg w = w\<lparr>notices := notices w @ [msg]\<rparr>"

text \<open>
  \<^verbatim>\<open>fetch\<close>: the request is issued; when the server is reachable its handler runs and the
  reply comes back whatever its status, otherwise the promise rejects (\<open>None\<close>).
\<close>

definition fetch :: "request \<Rightarrow> world \<Rightarrow> (nat \<times> body) option \<times> world" where
  "fetch r w =
     (let w1 = w\<lparr>sent := sent w @ [r]\<rparr>
      in if online w
         then (case handle r (db w) of (reply, d') \<Rightarrow> (Some reply, w1\<lparr>db := d'\<rparr>))
         else (None, w1))"

definition no_fields :: ticket_body where
  "no_fields = \<lparr>b_ticket_number = None, b_color = None, b_notes = None,
                b_current_step_id = None, b_order_index = None\<rparr>"

subsection \<open>Ticket operations\<close>

text \<open>
  \<^verbatim>\<open>updateTicket\<close>: the reply's status is not looked at; the local copy is updated
  whenever \<^verbatim>\<open>fetch\<close> resolves.
\<close>

definition updateTicket :: "nat \<Rightarrow> ticket_body \<Rightarrow> world \<Rightarrow> world" where
  "updateTicket ticketId updates w =
     (case fetch (PUT_ticket ticketId updates) w of
        (None, w1) \<Rightarrow> showError ''Failed to update ticket.'' w1
      | (Some reply, w1) \<Rightarrow>
          w1\<lparr>tickets :=
               assign_first (\<lambda>t. t_id t = ticketId) (apply_ticket_body updates) (tickets w1)\<rparr>)"

definition deleteTicket :: "nat \<Rightarrow> world \<Rightarrow> world" where
  "deleteTicket ticketId w =
     (case fetch (DELETE_ticket ticketId) w of
        (None, w1) \<Rightarrow> showError ''Failed to delete ticket.'' w1
      | (Some reply, w1) \<Rightarrow> w1\<lparr>tickets := filter (\<lambda>t. t_id t \<noteq> ticketId) (tickets w1)\<rparr>)"

text \<open>
  \<^verbatim>\<open>loadTickets\<close>. The list endpoint always answers with the rows; any other outcome
  ends in the \<^verbatim>\<open>catch\<close> block.
\<close>

definition loadTickets :: "world \<Rightarrow> world" where
  "loadTickets w =
     (case fetch GET_tickets w of
        (Some (status, TicketRows rows), w1) \<Rightarrow>
          w1\<lparr>tickets := rows,
             usedTicketNumbers := fold set_add (map ticket_number rows) (usedTicketNumbers w1)\<rparr>
      | (other, w1) \<Rightarrow>
          showError ''Failed to load tickets. Make sure the server is running.'' w1)"

text \<open>
  \<^verbatim>\<open>changeTicketStep\<close>. \<^verbatim>\<open>steps[newIndex]?.id || null\<close> turns a step id of 0 into \<^verbatim>\<open>null\<close>.
\<close>

definition changeTicketStep :: "nat \<Rightarrow> string \<Rightarrow> world \<Rightarrow> world" where
  "changeTicketStep ticketId direction w =
     (case find (\<lambda>t. t_id t = ticketId) (tickets w) of
        None \<Rightarrow> w
      | Some ticket \<Rightarrow>
          if steps w = [] then w
          else
            (let len = int (length (steps w));
                 found = findIndex (\<lambda>s. Some (s_id s) = current_step_id ticket) (steps w);
                 currentIndex =
                   (if found = - 1 then (if direction = ''right'' then - 1 else len) else found);
                 newIndex =
                   (if direction = ''left''
                    then (if currentIndex > 0 then currentIndex - 1 else 0)
                    else (if currentIndex < len - 1 then currentIndex + 1 else len - 1));
                 newStepId =
                   (case at_index (steps w) newIndex of
                      None \<Rightarrow> None
                    | Some s \<Rightarrow> if s_id s = 0 then None else Some (s_id s));
                 w1 = w\<lparr>tickets :=
                          assign_first (\<lambda>t. t_id t = ticketId)
                            (\<lambda>t. t\<lparr>current_step_id := newStepId\<rparr>) (tickets w)\<rparr>
             in updateTicket ticketId (no_fields\<lparr>b_current_step_id := Some newStepId\<rparr>) w1))"

text \<open>
  \<^verbatim>\<open>moveTicketInArray\<close>. When \<^verbatim>\<open>fromIdx\<close> addresses no element, \<^verbatim>\<open>item\<close> is
  \<^verbatim>\<open>undefined\<close> and the re-walk throws a \<^verbatim>\<open>TypeError\<close> on it: \<open>None\<close>.
\<close>

definition reindex :: "ticket list \<Rightarrow> ticket list" where
  "reindex ts = map (\<lambda>(i, t). t\<lparr>t_order_index := int i\<rparr>) (enumerate 0 ts)"

definition moveTicketInArray :: "int \<Rightarrow> int \<Rightarrow> world \<Rightarrow> (bool \<times> world) option" where
  "moveTicketInArray fromIdx toIdx w =
     (if fromIdx = - 1 \<or> toIdx = - 1 \<or> fromIdx = toIdx then Some (False, w)
      else
        (let k = splice_start fromIdx (length (tickets w))
         in if k < length (tickets w)
            then
              (let item = tickets w ! k;
                   rest = take k (tickets w) @ drop (Suc k) (tickets w);
                   j = splice_start toIdx (length rest);
                   moved = reindex (take j rest @ [item] @ drop j rest)
               in Some (True,
                    fold (\<lambda>t. updateTicket (t_id t) (no_fields\<lparr>b_order_index := Some (t_order_index t)\<rparr>))
                      moved (w\<lparr>tickets := moved\<rparr>)))
            else None))"

subsection \<open>Numbering policy\<close>

text \<open>
  \<^verbatim>\<open>generateNewTicketNumber\<close>, random branch. \<open>rnd k\<close> stands for the value of
  \<^verbatim>\<open>Math.floor(Math.random() * 90)\<close> at the \<open>k\<close>-th draw of the call (counted from 0), and
  \<open>guard\<close> is the source's counter before its increment. The loop is
  \<^verbatim>\<open>do { number = ...; guard++; if (guard > 500) break; } while (used.has(number))\<close>.
\<close>

function random_draw :: "(nat \<Rightarrow> nat) \<Rightarrow> int list \<Rightarrow> nat \<Rightarrow> int" where
  "random_draw rnd used guard =
     (if Suc guard > 500 then int (rnd guard) + 10
      else if int (rnd guard) + 10 \<in> set used then random_draw rnd used (Suc guard)
      else int (rnd guard) + 10)"
  by pat_completeness auto
termination
  by (relation "measure (\<lambda>(rnd, used, guard). 500 - guard)") auto

text \<open>
  Sequential branch: \<^verbatim>\<open>max\<close> starts at 0 and is raised by every larger member;
  \<^verbatim>\<open>max + 1 || 1\<close> is a JavaScript sum, with a result of 0 replaced by 1.
\<close>

definition sequential_next :: "int list \<Rightarrow> int" where
  "sequential_next used =
     (let mx = fold (\<lambda>n m. if n > m then n else m) used 0
      in if js_add_one mx = 0 then 1 else js_add_one mx)"

definition generateNewTicketNumber :: "(nat \<Rightarrow> nat) \<Rightarrow> world \<Rightarrow> int \<times> world" where
  "generateNewTicketNumber rnd w =
     (if randomTwoDigitNumbers w
      then (let number = random_draw rnd (usedTicketNumbers w) 0
            in (number, w\<lparr>usedTicketNumbers := set_add number (usedTicketNumbers w)\<rparr>))
      else (let next = sequential_next (usedTicketNumbers w)
            in (next, w\<lparr>usedTicketNumbers := set_add next (usedTicketNumbers w)\<rparr>)))"

text \<open>
  \<^verbatim>\<open>generateRandomTicketNumber\<close> of \<^verbatim>\<open>app.js\<close>, the earlier revision of the page script:
  the same draw in a \<^verbatim>\<open>do ... while (usedTicketNumbers.has(number))\<close> loop with no guard.
  \<open>k\<close> counts the draws made so far; \<open>None\<close> is the loop that never ends.
\<close>

partial_function (option) generateRandomTicketNumber_from ::
  "(nat \<Rightarrow> nat) \<Rightarrow> int list \<Rightarrow> nat \<Rightarrow> int option" where
  "generateRandomTicketNumber_from rnd used k =
     (if int (rnd k) + 10 \<in> set used then generateRandomTicketNumber_from rnd used (Suc k)
      else Some (int (rnd k) + 10))"

definition DEFAULT_COLORS :: "string list" where
  "DEFAULT_COLORS = [''pink'', ''orange'', ''yellow'', ''blue'']"

definition pickNextDefaultColor :: "string option \<Rightarrow> string" where
  "pickNextDefaultColor lastColor =
     (case lastColor of
        None \<Rightarrow> DEFAULT_COLORS ! 0
      | Some c \<Rightarrow>
          (let idx = findIndex (\<lambda>x. x = c) DEFAULT_COLORS
           in if idx = - 1 then DEFAULT_COLORS ! 0
              else DEFAULT_COLORS ! (nat (idx + 1) mod length DEFAULT_COLORS)))"

text \<open>
  \<^verbatim>\<open>addTicket\<close>; \<open>ticketData\<close> is its object literal, built from the arrays, which the
  number generator does not touch. The reply is pushed into \<^verbatim>\<open>tickets\<close> unread. After a failed insert that
  reply is the error object, which is no ticket; the mirror is not followed beyond
  that point and the result is \<open>None\<close>.
\<close>

definition ticketData :: "int \<Rightarrow> world \<Rightarrow> ticket_body" where
  "ticketData number w =
     (let lastColor = (if tickets w = [] then None else Some (color (last (tickets w))));
          baseLast = (case lastColor of
                        Some (c # cs) \<Rightarrow> if c = CHR ''#'' then None else lastColor
                      | other \<Rightarrow> other);
          nextColor = pickNextDefaultColor baseLast
      in \<lparr>b_ticket_number = Some number, b_color = Some nextColor, b_notes = Some [],
          b_current_step_id = Some (if steps w = [] then None else Some (s_id (hd (steps w)))),
          b_order_index = Some (int (length (tickets w)))\<rparr>)"

definition addTicket :: "(nat \<Rightarrow> nat) \<Rightarrow> world \<Rightarrow> world option" where
  "addTicket rnd w =
     (case generateNewTicketNumber rnd w of
        (number, w1) \<Rightarrow>
          (case fetch (POST_ticket (ticketData number w1)) w1 of
             (None, w2) \<Rightarrow> Some (showError ''Failed to add ticket.'' w2)
           | (Some (status, TicketRow newTicket), w2) \<Rightarrow>
               Some (w2\<lparr>tickets := tickets w2 @ [newTicket]\<rparr>)
           | (Some other, w2) \<Rightarrow> None))"

text \<open>
  The \<^verbatim>\<open>finish(true)\<close> closure of \<^verbatim>\<open>startEditTicketNumber\<close>. \<open>newNum\<close> is the value of
  \<^verbatim>\<open>parseInt(input.value, 10)\<close>, with \<^verbatim>\<open>NaN\<close> as \<open>None\<close>. The statements run in the
  source's order: \<^verbatim>\<open>await updateTicket\<close>, then \<^verbatim>\<open>usedTicketNumbers.add(newNum)\<close>, then
  \<^verbatim>\<open>usedTicketNumbers.delete(t.ticket_number)\<close> for the ticket found, then the local
  assignment of the number.
\<close>

definition finishEditTicketNumber :: "nat \<Rightarrow> int option \<Rightarrow> world \<Rightarrow> world" where
  "finishEditTicketNumber ticketId newNum w =
     (case newNum of
        None \<Rightarrow> showError ''Enter a positive number.'' w
      | Some n \<Rightarrow>
          if n \<le> 0 then showError ''Enter a positive number.'' w
          else if n \<in> set (usedTicketNumbers w) then showError ''That number is already in use.'' w
          else
            (let w1 = updateTicket ticketId (no_fields\<lparr>b_ticket_number := Some n\<rparr>) w;
                 w2 = w1\<lparr>usedTicketNumbers := set_add n (usedTicketNumbers w1)\<rparr>;
                 w3 = (case find (\<lambda>t. t_id t = ticketId) (tickets w2) of
                         None \<Rightarrow> w2
                       | Some t \<Rightarrow>
                           w2\<lparr>usedTicketNumbers :=
                                set_delete (ticket_number t) (usedTicketNumbers w2)\<rparr>)
             in w3\<lparr>tickets :=
                     assign_first (\<lambda>t. t_id t = ticketId) (\<lambda>t. t\<lparr>ticket_number := n\<rparr>)
                       (tickets w3)\<rparr>))"

subsection \<open>Debounced notes\<close>

text \<open>
  \<^verbatim>\<open>clearTimeout\<close> takes the callback of that handle out of the browser's table;
  \<^verbatim>\<open>setTimeout\<close> enters a callback under a fresh handle, due \<open>delay\<close> milliseconds from now.
  The only callback the script ever schedules is the notes save of \<^verbatim>\<open>updateTicketNotes\<close>,
  so an entry records the ticket and the text the closure captured.
\<close>

definition clearTimeout :: "nat \<Rightarrow> world \<Rightarrow> world" where
  "clearTimeout h w = w\<lparr>timers := filter (\<lambda>p. pt_handle p \<noteq> h) (timers w)\<rparr>"

definition setTimeout :: "nat \<Rightarrow> string \<Rightarrow> nat \<Rightarrow> world \<Rightarrow> nat \<times> world" where
  "setTimeout ticketId text delay w =
     (next_timer w,
      w\<lparr>timers := timers w @ [\<lparr>pt_handle = next_timer w, pt_due = clock w + delay,
                               pt_ticket = ticketId, pt_text = text\<rparr>],
        next_timer := Suc (next_timer w)\<rparr>)"

definition updateTicketNotes :: "nat \<Rightarrow> string \<Rightarrow> world \<Rightarrow> world" where
  "updateTicketNotes ticketId text w =
     (let w1 = w\<lparr>tickets :=
                  assign_first (\<lambda>t. t_id t = ticketId) (\<lambda>t. t\<lparr>t_notes := text\<rparr>) (tickets w)\<rparr>;
          w2 = (case notesSaveTimers w1 ticketId of None \<Rightarrow> w1 | Some h \<Rightarrow> clearTimeout h w1)
      in case setTimeout ticketId text 400 w2 of
           (timer, w3) \<Rightarrow> w3\<lparr>notesSaveTimers := (notesSaveTimers w3)(ticketId \<mapsto> timer)\<rparr>)"

text \<open>
  A timer that fires leaves the table and runs its callback:
  \<^verbatim>\<open>updateTicket(ticketId, { notes: text }); notesSaveTimers.delete(ticketId)\<close>.
\<close>

definition run_timer :: "pending_save \<Rightarrow> world \<Rightarrow> world" where
  "run_timer p w =
     (let w1 = w\<lparr>timers := filter (\<lambda>q. pt_handle q \<noteq> pt_handle p) (timers w)\<rparr>;
          w2 = updateTicket (pt_ticket p) (no_fields\<lparr>b_notes := Some (pt_text p)\<rparr>) w1
      in w2\<lparr>notesSaveTimers := (notesSaveTimers w2)(pt_ticket p := None)\<rparr>)"

text \<open>
  \<open>ms\<close> milliseconds pass with no input: every callback that has come due fires, in
  order of its due time. A callback schedules and cancels nothing, so the set of
  callbacks to fire is fixed when the interval starts.
\<close>

definition elapse :: "nat \<Rightarrow> world \<Rightarrow> world" where
  "elapse ms w =
     (let w1 = w\<lparr>clock := clock w + ms\<rparr>
      in fold run_timer (sort_key pt_due (filter (\<lambda>p. pt_due p \<le> clock w1) (timers w1))) w1)"

text \<open>
  A burst of notes edits on one ticket: each edit arrives \<open>gap\<close> milliseconds after the
  event before it.
\<close>

fun type_notes :: "nat \<Rightarrow> (nat \<times> string) list \<Rightarrow> world \<Rightarrow> world" where
  "type_notes ticketId [] w = w"
| "type_notes ticketId ((gap, text) # rest) w =
     type_notes ticketId rest (updateTicketNotes ticketId text (elapse gap w))"

subsection \<open>Step operations\<close>

text \<open>\<^verbatim>\<open>deleteStep\<close>, without its undo history and toast.\<close>

definition deleteStep :: "nat \<Rightarrow> world \<Rightarrow> world" where
  "deleteStep stepId w =
     (case fetch (DELETE_step stepId) w of
        (None, w1) \<Rightarrow> showError ''Failed to delete step.'' w1
      | (Some reply, w1) \<Rightarrow>
          w1\<lparr>steps := filter (\<lambda>s. s_id s \<noteq> stepId) (steps w1),
             tickets :=
               map (\<lambda>t. if current_step_id t = Some stepId then t\<lparr>current_step_id := None\<rparr> else t)
                   (tickets w1)\<rparr>)"

subsection \<open>A board to run the operations on\<close>

definition board_db :: database where
  "board_db =
     \<lparr>tickets_table =
        [\<lparr>t_id = 1, ticket_number = 5, color = ''pink'', t_notes = [],
          current_step_id = Some 1, t_order_index = 0\<rparr>,
         \<lparr>t_id = 2, ticket_number = 7, color = ''orange'', t_notes = [],
          current_step_id = Some 3, t_order_index = 1\<rparr>,
         \<lparr>t_id = 3, ticket_number = 12, color = ''yellow'', t_notes = [],
          current_step_id = Some 3, t_order_index = 2\<rparr>],
      steps_table =
        [\<lparr>s_id = 1, name = ''Intake'', s_order_index = 0\<rparr>,
         \<lparr>s_id = 2, name = ''Review'', s_order_index = 1\<rparr>,
         \<lparr>s_id = 3, name = ''Done'', s_order_index = 2\<rparr>],
      tickets_seq = 3, steps_seq = 3, foreign_keys = True\<rparr>"

definition board :: world where
  "board =
     \<lparr>tickets = tickets_table board_db, steps = steps_table board_db,
      usedTicketNumbers = [5, 7, 12], notesSaveTimers = Map.empty,
      randomTwoDigitNumbers = False, notices = [], db = board_db, online = True,
      sent = [], timers = [], next_timer = 0, clock = 0\<rparr>"

section \<open>Observations the properties are stated on\<close>

text \<open>The step the ticket \<open>ticketId\<close> is on in the mirror after \<^verbatim>\<open>changeTicketStep\<close>.\<close>

definition step_after :: "nat \<Rightarrow> string \<Rightarrow> world \<Rightarrow> nat option option" where
  "step_after ticketId direction w =
     map_option current_step_id
       (find (\<lambda>t. t_id t = ticketId) (tickets (changeTicketStep ticketId direction w)))"

text \<open>
  The notes texts sent to the server for one ticket, in the order of the requests: the
  persistence calls of the debounced saver.
\<close>

fun notes_put :: "nat \<Rightarrow> request \<Rightarrow> string option" where
  "notes_put ticketId (PUT_ticket i b) = (if i = ticketId then b_notes b else None)"
| "notes_put ticketId other = None"

definition saved_notes :: "nat \<Rightarrow> world \<Rightarrow> string list" where
  "saved_notes ticketId w = List.map_filter (notes_put ticketId) (sent w)"

text \<open>
  The timer table and \<^verbatim>\<open>notesSaveTimers\<close> agree: handles are not reused, and every
  pending save is the one its ticket's map entry names.
\<close>

definition timers_ok :: "world \<Rightarrow> bool" where
  "timers_ok w \<longleftrightarrow>
     distinct (map pt_handle (timers w))
     \<and> (\<forall>p \<in> set (timers w).
           pt_handle p < next_timer w \<and> notesSaveTimers w (pt_ticket p) = Some (pt_handle p))"

text \<open>Every ticket number shown in the mirror is a member of the used-number set.\<close>

definition numbers_covered :: "world \<Rightarrow> bool" where
  "numbers_covered w \<longleftrightarrow> set (map ticket_number (tickets w)) \<subseteq> set (usedTicketNumbers w)"

text \<open>The callbacks that fire when \<open>ms\<close> milliseconds pass, in firing order.\<close>

definition due_timers :: "nat \<Rightarrow> world \<Rightarrow> pending_save list" where
  "due_timers ms w = sort_key pt_due (filter (\<lambda>p. pt_due p \<le> clock w + ms) (timers w))"

text \<open>
  The state right after a notes edit of ticket \<open>ticketId\<close> with \<open>text\<close>: the table is
  consistent, the ticket has exactly one pending save, due in 400 ms and carrying
  \<open>text\<close>; the notes texts sent so far for the ticket are \<open>base\<close>; and the mirror shows
  \<open>text\<close> on the ticket if it is \<open>present\<close> there.
\<close>

definition armed :: "nat \<Rightarrow> string \<Rightarrow> string list \<Rightarrow> bool \<Rightarrow> world \<Rightarrow> bool" where
  "armed ticketId text base present w \<longleftrightarrow>
     timers_ok w
     \<and> (\<exists>h. filter (\<lambda>p. pt_ticket p = ticketId) (timers w) =
               [\<lparr>pt_handle = h, pt_due = clock w + 400, pt_ticket = ticketId, pt_text = text\<rparr>])
     \<and> saved_notes ticketId w = base
     \<and> map_option t_notes (find (\<lambda>t. t_id t = ticketId) (tickets w)) =
         (if present then Some text else None)"

section \<open>Properties of the gateway\<close>

lemma sql_max_Max: "sql_max xs = (if xs = [] then None else Some (Max (set xs)))"
  by (induction xs) (auto simp: max_def)

lemma js_add_one_exact:
  "- 9007199254740992 \<le> n \<Longrightarrow> n < 9007199254740992 \<Longrightarrow> js_add_one n = n + 1"
  by (simp add: js_add_one_def)

text \<open>
  A ticket created without \<^verbatim>\<open>order_index\<close> is appended: it gets the largest
  \<^verbatim>\<open>order_index\<close> of the table plus one, and 0 in an empty table, as long as that largest
  index lies where the JavaScript sum is exact.
\<close>

lemma post_ticket_appends:
  assumes "b_order_index tb = None"
    and "fst (post_ticket tb d) = (201, TicketRow row)"
    and "tickets_table d \<noteq> [] \<Longrightarrow>
           - 9007199254740992 \<le> Max (set (map t_order_index (tickets_table d)))
           \<and> Max (set (map t_order_index (tickets_table d))) < 9007199254740992"
  shows "t_order_index row =
           (if tickets_table d = [] then 0
            else Max (set (map t_order_index (tickets_table d))) + 1)"
proof (cases "tickets_table d = []")
  case True
  with assms(1,2) show ?thesis
    by (cases "b_ticket_number tb")
       (auto simp: post_ticket_def Let_def js_add_one_def split: if_splits)
next
  case False
  with assms(3) have "js_add_one (Max (set (map t_order_index (tickets_table d)))) =
      Max (set (map t_order_index (tickets_table d))) + 1"
    by (intro js_add_one_exact) simp_all
  with False assms(1,2) show ?thesis
    by (cases "b_ticket_number tb")
       (auto simp: post_ticket_def Let_def sql_max_Max split: if_splits)
qed

text \<open>
  C9, evaluated on a database whose three steps and three tickets have the indices
  0, 1, 2. A step posted without \<^verbatim>\<open>order_index\<close> is stored with index 0, not with the
  largest index plus one, which is 3: the handler inserts \<^verbatim>\<open>order_index || 0\<close>. A ticket
  posted without \<^verbatim>\<open>order_index\<close> to the same database is stored with index 3.
\<close>

theorem post_step_stores_zero:
  "fst (post_step \<lparr>b_name = Some ''Archive'', b_step_order_index = None\<rparr> board_db) =
     (201, StepRow \<lparr>s_id = 4, name = ''Archive'', s_order_index = 0\<rparr>)
   \<and> Max (set (map s_order_index (steps_table board_db))) + 1 = 3
   \<and> fst (post_ticket (no_fields\<lparr>b_ticket_number := Some 20\<rparr>) board_db) =
       (201, TicketRow \<lparr>t_id = 4, ticket_number = 20, color = ''white'', t_notes = [],
                        current_step_id = None, t_order_index = 3\<rparr>)"
  by (simp add: post_ticket_def post_step_def board_db_def next_rowid_def or_zero_def
        or_null_def or_string_def fk_violation_def no_fields_def js_add_one_def Let_def)

text \<open>
  C10. A step update whose body has neither \<^verbatim>\<open>name\<close> nor \<^verbatim>\<open>order_index\<close> is answered
  with status 500 and leaves the database as it was, for every step id.
\<close>

theorem put_step_without_fields:
  "b_name b = None \<Longrightarrow> b_step_order_index b = None \<Longrightarrow>
   put_step i b d = ((500, ErrorBody ''Failed to update step''), d)"
  by (simp add: put_step_def step_updates_def)

theorem put_step_without_fields_witness:
  "b_name \<lparr>b_name = None, b_step_order_index = None\<rparr> = None
   \<and> b_step_order_index \<lparr>b_name = None, b_step_order_index = None\<rparr> = None
   \<and> put_step 2 \<lparr>b_name = None, b_step_order_index = None\<rparr> board_db
       = ((500, ErrorBody ''Failed to update step''), board_db)"
  using put_step_without_fields [of "\<lparr>b_name = None, b_step_order_index = None\<rparr>" 2 board_db]
  by simp

text \<open>With either field present the same request is answered with status 200.\<close>

lemma put_step_status:
  "fst (fst (put_step i b d)) = 500 \<longleftrightarrow> b_name b = None \<and> b_step_order_index b = None"
  by (auto simp: put_step_def step_updates_def Let_def split: option.splits)

section \<open>Properties of the client\<close>

subsection \<open>What a request does to the client state\<close>

lemma find_assign_first:
  "(\<And>x. P x \<Longrightarrow> P (f x)) \<Longrightarrow> find P (assign_first P f xs) = map_option f (find P xs)"
  by (induction xs) auto

lemma set_set_add: "set (set_add x xs) = insert x (set xs)"
  by (auto simp: set_add_def)

lemma fetch_online:
  "online w \<Longrightarrow> fetch r w = (Some (fst (handle r (db w))), w\<lparr>sent := sent w @ [r], db := snd (handle r (db w))\<rparr>)"
  by (simp add: fetch_def Let_def split: prod.splits)

lemma fetch_offline:
  "\<not> online w \<Longrightarrow> fetch r w = (None, w\<lparr>sent := sent w @ [r]\<rparr>)"
  by (simp add: fetch_def Let_def)

lemma deleteStep_online:
  "online w \<Longrightarrow> deleteStep S w =
     w\<lparr>sent := sent w @ [DELETE_step S], db := snd (delete_step S (db w)),
       steps := filter (\<lambda>s. s_id s \<noteq> S) (steps w),
       tickets := map (\<lambda>t. if current_step_id t = Some S then t\<lparr>current_step_id := None\<rparr> else t) (tickets w)\<rparr>"
  by (simp add: deleteStep_def fetch_online)

lemma delete_step_tickets:
  "tickets_table (snd (delete_step S d)) =
     map (\<lambda>t. if current_step_id t = Some S then t\<lparr>current_step_id := None\<rparr> else t) (tickets_table d)"
  by (simp add: delete_step_def Let_def)

lemma delete_step_steps:
  "steps_table (snd (delete_step S d)) = filter (\<lambda>s. s_id s \<noteq> S) (steps_table d)"
proof (cases "S \<in> set (map s_id (steps_table d))")
  case True
  then show ?thesis by (simp add: delete_step_def Let_def)
next
  case False
  then have "filter (\<lambda>s. s_id s \<noteq> S) (steps_table d) = steps_table d"
    by (auto simp: filter_id_conv)
  with False show ?thesis by (simp add: delete_step_def Let_def)
qed

lemma updateTicket_tickets:
  "tickets (updateTicket i b w) =
     (if online w then assign_first (\<lambda>t. t_id t = i) (apply_ticket_body b) (tickets w)
      else tickets w)"
  by (simp add: updateTicket_def fetch_def showError_def Let_def split: prod.splits)

subsection \<open>Cascade on step deletion\<close>

text \<open>
  C2. When the server is reachable, deleting step \<open>S\<close> sets \<^verbatim>\<open>current_step_id\<close> to \<^verbatim>\<open>null\<close>
  on every ticket that was on \<open>S\<close> and changes no other ticket, in the mirror and in the
  database alike; afterwards no ticket is on \<open>S\<close> and no step has id \<open>S\<close>, in either place.
\<close>

theorem deleteStep_cascade:
  assumes "online w"
  shows "tickets (deleteStep S w) =
           map (\<lambda>t. if current_step_id t = Some S then t\<lparr>current_step_id := None\<rparr> else t) (tickets w)
       \<and> tickets_table (db (deleteStep S w)) =
           map (\<lambda>t. if current_step_id t = Some S then t\<lparr>current_step_id := None\<rparr> else t)
             (tickets_table (db w))
       \<and> (\<forall>t \<in> set (tickets (deleteStep S w)). current_step_id t \<noteq> Some S)
       \<and> (\<forall>t \<in> set (tickets_table (db (deleteStep S w))). current_step_id t \<noteq> Some S)
       \<and> S \<notin> set (map s_id (steps (deleteStep S w)))
       \<and> S \<notin> set (map s_id (steps_table (db (deleteStep S w))))"
  using assms
  by (auto simp: deleteStep_online delete_step_tickets delete_step_steps)

theorem deleteStep_cascade_witness:
  "online board
   \<and> map current_step_id (tickets board) = [Some 1, Some 3, Some 3]
   \<and> map current_step_id (tickets (deleteStep 3 board)) = [Some 1, None, None]
   \<and> map current_step_id (tickets_table (db (deleteStep 3 board))) = [Some 1, None, None]
   \<and> 3 \<notin> set (map s_id (steps (deleteStep 3 board)))
   \<and> 3 \<notin> set (map s_id (steps_table (db (deleteStep 3 board))))"
  using deleteStep_cascade [of board 3]
  by (simp add: board_def board_db_def)

subsection \<open>Step navigation\<close>

lemma findIndex_range: "- 1 \<le> findIndex P xs \<and> findIndex P xs < int (length xs)"
  by (induction xs) (auto simp: Let_def)

lemma findIndex_none: "findIndex P xs = - 1 \<longleftrightarrow> (\<forall>x \<in> set xs. \<not> P x)"
proof (induction xs)
  case Nil
  then show ?case by simp
next
  case (Cons x xs)
  have "- 1 \<le> findIndex P xs" using findIndex_range [of P xs] by simp
  with Cons show ?case by (auto simp: Let_def)
qed

lemma findIndex_nth:
  "i < length xs \<Longrightarrow> P (xs ! i) \<Longrightarrow> (\<forall>j < i. \<not> P (xs ! j)) \<Longrightarrow> findIndex P xs = int i"
proof (induction xs arbitrary: i)
  case Nil
  then show ?case by simp
next
  case (Cons x xs)
  show ?case
  proof (cases i)
    case 0
    with Cons.prems show ?thesis by simp
  next
    case (Suc k)
    with Cons.prems have "\<not> P x" by auto
    moreover have "\<forall>j<k. \<not> P (xs ! j)"
    proof (intro allI impI)
      fix j assume "j < k"
      then have "Suc j < i" using Suc by simp
      with Cons.prems(3) have "\<not> P ((x # xs) ! Suc j)" by blast
      then show "\<not> P (xs ! j)" by simp
    qed
    moreover have "k < length xs" and "P (xs ! k)" using Cons.prems Suc by auto
    ultimately have "findIndex P xs = int k" using Cons.IH [of k] by blast
    moreover have "\<not> P x" using Cons.prems(3) Suc by auto
    ultimately show ?thesis using Suc by (simp add: Let_def)
  qed
qed

lemma findIndex_distinct:
  assumes "distinct (map f xs)" and "i < length xs"
  shows "findIndex (\<lambda>s. Some (f s) = Some (f (xs ! i))) xs = int i"
proof (rule findIndex_nth)
  show "i < length xs" by fact
  show "Some (f (xs ! i)) = Some (f (xs ! i))" by simp
  show "\<forall>j<i. Some (f (xs ! j)) \<noteq> Some (f (xs ! i))"
  proof (intro allI impI)
    fix j assume "j < i"
    with assms have "map f xs ! j \<noteq> map f xs ! i"
      by (auto simp: distinct_conv_nth)
    with \<open>j < i\<close> assms(2) show "Some (f (xs ! j)) \<noteq> Some (f (xs ! i))" by simp
  qed
qed

lemma nat_int_pred: "nat (int n - 1) = n - 1"
  by arith

lemma nat_int_succ: "nat (int n + 1) = Suc n"
  by arith

lemma changeTicketStep_found:
  assumes "find (\<lambda>t. t_id t = tid) (tickets w) = Some t" and "steps w \<noteq> []"
  shows "step_after tid direction w =
     Some (let len = int (length (steps w));
                 found = findIndex (\<lambda>s. Some (s_id s) = current_step_id t) (steps w);
                 currentIndex =
                   (if found = - 1 then (if direction = ''right'' then - 1 else len) else found);
                 newIndex =
                   (if direction = ''left''
                    then (if currentIndex > 0 then currentIndex - 1 else 0)
                    else (if currentIndex < len - 1 then currentIndex + 1 else len - 1))
           in (case at_index (steps w) newIndex of
                      None \<Rightarrow> None
                    | Some s \<Rightarrow> if s_id s = 0 then None else Some (s_id s)))"
  using assms
  by (simp add: step_after_def changeTicketStep_def Let_def updateTicket_tickets
        find_assign_first apply_ticket_body_def no_fields_def)

text \<open>
  C6. On a non-empty step sequence whose ids are distinct and non-zero (as row ids are),
  for a ticket of the mirror: with no step of the sequence assigned, advancing right
  puts it on the first step and advancing left on the last; on the first step,
  advancing left keeps it there; on the last step, advancing right keeps it there;
  otherwise it moves one position in the direction asked.
\<close>

theorem changeTicketStep_navigation:
  assumes "find (\<lambda>t. t_id t = tid) (tickets w) = Some t"
    and "steps w \<noteq> []"
    and "distinct (map s_id (steps w))"
    and "0 \<notin> set (map s_id (steps w))"
  shows "(current_step_id t \<notin> Some ` set (map s_id (steps w)) \<longrightarrow>
            step_after tid ''right'' w = Some (Some (s_id (hd (steps w))))
          \<and> step_after tid ''left'' w = Some (Some (s_id (last (steps w)))))
       \<and> (\<forall>i < length (steps w). current_step_id t = Some (s_id (steps w ! i)) \<longrightarrow>
            (i = 0 \<longrightarrow> step_after tid ''left'' w = Some (Some (s_id (steps w ! 0))))
          \<and> (0 < i \<longrightarrow> step_after tid ''left'' w = Some (Some (s_id (steps w ! (i - 1)))))
          \<and> (i = length (steps w) - 1 \<longrightarrow>
                step_after tid ''right'' w = Some (Some (s_id (steps w ! (length (steps w) - 1)))))
          \<and> (i < length (steps w) - 1 \<longrightarrow>
                step_after tid ''right'' w = Some (Some (s_id (steps w ! (i + 1))))))"
proof (intro conjI impI allI)
  have nz: "\<And>k. k < length (steps w) \<Longrightarrow> s_id (steps w ! k) \<noteq> 0"
    using assms(4) by (metis nth_mem image_eqI set_map)
  have len: "0 < length (steps w)" using assms(2) by simp
  {
    assume "current_step_id t \<notin> Some ` set (map s_id (steps w))"
    then have none: "findIndex (\<lambda>s. Some (s_id s) = current_step_id t) (steps w) = - 1"
      unfolding findIndex_none by (metis image_eqI set_map)
    show "step_after tid ''right'' w = Some (Some (s_id (hd (steps w))))"
      using len nz [of 0] none
      by (simp add: changeTicketStep_found [OF assms(1,2)] Let_def at_index_def hd_conv_nth assms(2))
    show "step_after tid ''left'' w = Some (Some (s_id (last (steps w))))"
      using len nz [of "length (steps w) - 1"] none
      by (simp add: changeTicketStep_found [OF assms(1,2)] Let_def at_index_def last_conv_nth assms(2)
            nat_int_pred)
  }
  fix i
  assume i: "i < length (steps w)" and cur: "current_step_id t = Some (s_id (steps w ! i))"
  have idx: "findIndex (\<lambda>s. Some (s_id s) = current_step_id t) (steps w) = int i"
    using findIndex_distinct [OF assms(3) i] cur by simp
  {
    assume "i = 0"
    then show "step_after tid ''left'' w = Some (Some (s_id (steps w ! 0)))"
      using idx len nz [of 0]
      by (simp add: changeTicketStep_found [OF assms(1,2)] Let_def at_index_def)
  }
  {
    assume "0 < i"
    then show "step_after tid ''left'' w = Some (Some (s_id (steps w ! (i - 1))))"
      using idx i nz [of "i - 1"]
      by (simp add: changeTicketStep_found [OF assms(1,2)] Let_def at_index_def nat_int_pred)
  }
  {
    assume "i = length (steps w) - 1"
    then show "step_after tid ''right'' w = Some (Some (s_id (steps w ! (length (steps w) - 1))))"
      using idx i nz [of i] assms(2)
      by (simp add: changeTicketStep_found [OF assms(1,2)] Let_def at_index_def nat_int_pred)
  }
  {
    assume "i < length (steps w) - 1"
    then have "int i < int (length (steps w)) - 1" and "Suc i < length (steps w)" by arith+
    then show "step_after tid ''right'' w = Some (Some (s_id (steps w ! (i + 1))))"
      using idx i nz [of "Suc i"]
      by (simp add: changeTicketStep_found [OF assms(1,2)] Let_def at_index_def nat_int_succ)
  }
qed


theorem changeTicketStep_navigation_witness:
  "find (\<lambda>t. t_id t = 2) (tickets board) =
     Some \<lparr>t_id = 2, ticket_number = 7, color = ''orange'', t_notes = [],
           current_step_id = Some 3, t_order_index = 1\<rparr>
   \<and> steps board \<noteq> [] \<and> distinct (map s_id (steps board)) \<and> 0 \<notin> set (map s_id (steps board))
   \<and> map s_id (steps board) = [1, 2, 3]
   \<and> step_after 2 ''left'' board = Some (Some 2)
   \<and> step_after 2 ''right'' board = Some (Some 3)"
proof -
  let ?t = "\<lparr>t_id = 2, ticket_number = 7, color = ''orange'', t_notes = [],
             current_step_id = Some 3, t_order_index = 1\<rparr>"
  have h1: "find (\<lambda>t. t_id t = 2) (tickets board) = Some ?t"
    by (simp add: board_def board_db_def)
  have h2: "steps board \<noteq> []" and h3: "distinct (map s_id (steps board))"
    and h4: "0 \<notin> set (map s_id (steps board))" and ids: "map s_id (steps board) = [1, 2, 3]"
    by (simp_all add: board_def board_db_def)
  have pos: "(2::nat) < length (steps board)"
    and cur: "current_step_id ?t = Some (s_id (steps board ! 2))"
    and last: "(2::nat) = length (steps board) - 1"
    by (simp_all add: board_def board_db_def)
  from changeTicketStep_navigation [OF h1 h2 h3 h4] pos cur last
  have "step_after 2 ''left'' board = Some (Some (s_id (steps board ! (2 - 1))))"
    and "step_after 2 ''right'' board = Some (Some (s_id (steps board ! (length (steps board) - 1))))"
    by auto
  then have "step_after 2 ''left'' board = Some (Some 2)"
    and "step_after 2 ''right'' board = Some (Some 3)"
    by (simp_all add: board_def board_db_def)
  with h1 h2 h3 h4 ids show ?thesis by simp
qed

subsection \<open>Numbering policy\<close>

lemma random_draw_first_free:
  "guard \<le> 500 \<Longrightarrow>
   \<exists>k. guard \<le> k \<and> k \<le> 500 \<and> random_draw rnd used guard = int (rnd k) + 10
       \<and> (\<forall>j. guard \<le> j \<and> j < k \<longrightarrow> int (rnd j) + 10 \<in> set used)
       \<and> (k < 500 \<longrightarrow> int (rnd k) + 10 \<notin> set used)"
proof (induction rnd used guard rule: random_draw.induct)
  case (1 rnd used guard)
  show ?case
  proof (cases "guard = 500")
    case True
    then have "random_draw rnd used guard = int (rnd 500) + 10"
      by (simp add: random_draw.simps [of rnd used guard])
    with True show ?thesis by auto
  next
    case lt: False
    with 1 have g: "guard < 500" by simp
    show ?thesis
    proof (cases "int (rnd guard) + 10 \<in> set used")
      case False
      with g have "random_draw rnd used guard = int (rnd guard) + 10"
        by (simp add: random_draw.simps [of rnd used guard])
      with False g show ?thesis by (intro exI [of _ guard]) auto
    next
      case True
      with g have eq: "random_draw rnd used guard = random_draw rnd used (Suc guard)"
        by (simp add: random_draw.simps [of rnd used guard])
      from "1.IH" g True obtain k where k: "Suc guard \<le> k" "k \<le> 500"
        "random_draw rnd used (Suc guard) = int (rnd k) + 10"
        "\<forall>j. Suc guard \<le> j \<and> j < k \<longrightarrow> int (rnd j) + 10 \<in> set used"
        "k < 500 \<longrightarrow> int (rnd k) + 10 \<notin> set used"
        by auto
      have "\<forall>j. guard \<le> j \<and> j < k \<longrightarrow> int (rnd j) + 10 \<in> set used"
      proof (intro allI impI)
        fix j assume j: "guard \<le> j \<and> j < k"
        show "int (rnd j) + 10 \<in> set used"
        proof (cases "j = guard")
          case True with \<open>int (rnd guard) + 10 \<in> set used\<close> show ?thesis by simp
        next
          case False
          with j have "Suc guard \<le> j \<and> j < k" by simp
          with k(4) show ?thesis by blast
        qed
      qed
      with k eq show ?thesis by (intro exI [of _ k]) auto
    qed
  qed
qed

text \<open>
  The generator of the current revision in random mode, with every draw
  \<^verbatim>\<open>Math.floor(Math.random() * 90)\<close> below 90: the number returned lies in 10..99; it is
  the first draw that is not in the used-number set, and after 500 rejected draws it is
  the next draw, whether in the set or not; the call changes nothing but the
  used-number set, which holds the number on return.
\<close>

lemma random_mode_number:
  assumes "randomTwoDigitNumbers w" and "\<forall>k. rnd k < 90"
  shows "10 \<le> fst (generateNewTicketNumber rnd w) \<and> fst (generateNewTicketNumber rnd w) \<le> 99
       \<and> (\<exists>k \<le> 500. fst (generateNewTicketNumber rnd w) = int (rnd k) + 10
             \<and> (\<forall>j < k. int (rnd j) + 10 \<in> set (usedTicketNumbers w))
             \<and> (k < 500 \<longrightarrow> int (rnd k) + 10 \<notin> set (usedTicketNumbers w)))
       \<and> snd (generateNewTicketNumber rnd w) =
           w\<lparr>usedTicketNumbers :=
               set_add (fst (generateNewTicketNumber rnd w)) (usedTicketNumbers w)\<rparr>
       \<and> fst (generateNewTicketNumber rnd w)
           \<in> set (usedTicketNumbers (snd (generateNewTicketNumber rnd w)))"
proof -
  let ?n = "random_draw rnd (usedTicketNumbers w) 0"
  have gen: "generateNewTicketNumber rnd w =
      (?n, w\<lparr>usedTicketNumbers := set_add ?n (usedTicketNumbers w)\<rparr>)"
    using assms(1) by (simp add: generateNewTicketNumber_def Let_def)
  from random_draw_first_free [of 0 rnd "usedTicketNumbers w"]
  obtain k where k: "k \<le> 500" "?n = int (rnd k) + 10"
    "\<forall>j < k. int (rnd j) + 10 \<in> set (usedTicketNumbers w)"
    "k < 500 \<longrightarrow> int (rnd k) + 10 \<notin> set (usedTicketNumbers w)"
    by auto
  from assms(2) have "rnd k < 90" by blast
  with k(2) have range: "10 \<le> ?n \<and> ?n \<le> 99" by simp
  from k have ex: "\<exists>k \<le> 500. ?n = int (rnd k) + 10
             \<and> (\<forall>j < k. int (rnd j) + 10 \<in> set (usedTicketNumbers w))
             \<and> (k < 500 \<longrightarrow> int (rnd k) + 10 \<notin> set (usedTicketNumbers w))"
    by blast
  show ?thesis using range ex by (simp add: gen set_set_add)
qed

lemma random_mode_number_on_board:
  "randomTwoDigitNumbers (board\<lparr>randomTwoDigitNumbers := True, usedTicketNumbers := [10, 11]\<rparr>)
   \<and> (\<forall>k. (\<lambda>k. k mod 90) k < (90::nat))
   \<and> fst (generateNewTicketNumber (\<lambda>k. k mod 90)
            (board\<lparr>randomTwoDigitNumbers := True, usedTicketNumbers := [10, 11]\<rparr>)) = 12
   \<and> usedTicketNumbers (snd (generateNewTicketNumber (\<lambda>k. k mod 90)
            (board\<lparr>randomTwoDigitNumbers := True, usedTicketNumbers := [10, 11]\<rparr>))) = [10, 11, 12]"
proof -
  let ?w = "board\<lparr>randomTwoDigitNumbers := True, usedTicketNumbers := [10, 11]\<rparr>"
  have h1: "randomTwoDigitNumbers ?w" by simp
  have h2: "\<forall>k. (\<lambda>k. k mod 90) k < (90::nat)" by simp
  have n: "fst (generateNewTicketNumber (\<lambda>k. k mod 90) ?w) = 12"
    by (simp add: generateNewTicketNumber_def Let_def)
  from random_mode_number [OF h1 h2] n
  have "snd (generateNewTicketNumber (\<lambda>k. k mod 90) ?w) =
          ?w\<lparr>usedTicketNumbers := set_add 12 (usedTicketNumbers ?w)\<rparr>"
    by simp
  then have "usedTicketNumbers (snd (generateNewTicketNumber (\<lambda>k. k mod 90) ?w)) = [10, 11, 12]"
    by (simp add: set_add_def)
  with h1 h2 n show ?thesis by blast
qed

text \<open>
  The unguarded loop of the earlier revision returns the first draw that is free, and
  never returns when every draw is taken (as when all of 10..99 are in use).
\<close>

lemma unguarded_returns_first_free:
  assumes "int (rnd (k + n)) + 10 \<notin> set used"
    and "\<forall>j < n. int (rnd (k + j)) + 10 \<in> set used"
  shows "generateRandomTicketNumber_from rnd used k = Some (int (rnd (k + n)) + 10)"
  using assms
proof (induction n arbitrary: k)
  case 0
  then show ?case by (simp add: generateRandomTicketNumber_from.simps)
next
  case (Suc n)
  from Suc.prems(2) have here: "int (rnd k) + 10 \<in> set used" by (metis add_0_right zero_less_Suc)
  have "generateRandomTicketNumber_from rnd used (Suc k) = Some (int (rnd (Suc k + n)) + 10)"
  proof (rule Suc.IH)
    show "int (rnd (Suc k + n)) + 10 \<notin> set used" using Suc.prems(1) by simp
    show "\<forall>j<n. int (rnd (Suc k + j)) + 10 \<in> set used"
    proof (intro allI impI)
      fix j assume "j < n"
      then have "Suc j < Suc n" by simp
      with Suc.prems(2) have "int (rnd (k + Suc j)) + 10 \<in> set used" by blast
      then show "int (rnd (Suc k + j)) + 10 \<in> set used" by simp
    qed
  qed
  with here show ?case
    by (subst generateRandomTicketNumber_from.simps) simp
qed

lemma unguarded_result_is_free_draw:
  assumes "generateRandomTicketNumber_from rnd used k = Some y"
  shows "\<exists>j. y = int (rnd j) + 10 \<and> y \<notin> set used"
proof (rule generateRandomTicketNumber_from.raw_induct
         [where P = "\<lambda>rnd used k y. \<exists>j. y = int (rnd j) + 10 \<and> y \<notin> set used", OF _ assms])
  fix loop :: "(nat \<Rightarrow> nat) \<Rightarrow> int list \<Rightarrow> nat \<Rightarrow> int option"
  fix rnd used k y
  assume IH: "\<And>rnd used k y. loop rnd used k = Some y \<Longrightarrow> \<exists>j. y = int (rnd j) + 10 \<and> y \<notin> set used"
    and step: "(if int (rnd k) + 10 \<in> set used then loop rnd used (Suc k)
                else Some (int (rnd k) + 10)) = Some y"
  show "\<exists>j. y = int (rnd j) + 10 \<and> y \<notin> set used"
  proof (cases "int (rnd k) + 10 \<in> set used")
    case True
    with step have "loop rnd used (Suc k) = Some y" by simp
    then show ?thesis by (rule IH)
  next
    case False
    with step have "y = int (rnd k) + 10" by simp
    with False show ?thesis by blast
  qed
qed

lemma unguarded_never_returns:
  assumes "\<forall>j. int (rnd j) + 10 \<in> set used"
  shows "generateRandomTicketNumber_from rnd used k = None"
proof (cases "generateRandomTicketNumber_from rnd used k")
  case None
  then show ?thesis .
next
  case (Some y)
  from unguarded_result_is_free_draw [OF Some] assms show ?thesis by blast
qed

text \<open>
  C7, evaluated with every number from 10 to 99 in use and draws that run through
  0, 1, ..., 89 again and again. \<^verbatim>\<open>generateRandomTicketNumber\<close> of \<^verbatim>\<open>app.js\<close> never
  returns: its loop has no attempt count. \<^verbatim>\<open>generateNewTicketNumber\<close> of the current
  revision rejects 500 draws and returns the 501st, which is 60 and in use.
\<close>

theorem random_numbers_exhausted:
  "generateRandomTicketNumber_from (\<lambda>k. k mod 90) (map int [10..<100]) 0 = None
   \<and> fst (generateNewTicketNumber (\<lambda>k. k mod 90)
            (board\<lparr>randomTwoDigitNumbers := True, usedTicketNumbers := map int [10..<100]\<rparr>)) = 60
   \<and> (60::int) \<in> set (map int [10..<100])"
proof -
  define used where "used = map int [10..<100]"
  let ?rnd = "\<lambda>k::nat. k mod 90"
  have taken: "int (?rnd j) + 10 \<in> set used" for j
  proof -
    have "j mod 90 + 10 \<in> {10..<100}" by simp
    then have "int (j mod 90 + 10) \<in> int ` {10..<100}" by (rule imageI)
    then have "int (j mod 90) + 10 \<in> int ` {10..<100}" by (simp only: of_nat_add of_nat_numeral)
    then show ?thesis by (simp only: used_def set_map set_upt)
  qed
  then have never: "generateRandomTicketNumber_from ?rnd used 0 = None"
    by (intro unguarded_never_returns) blast
  from random_draw_first_free [of 0 ?rnd used]
  obtain k where k: "k \<le> 500" "random_draw ?rnd used 0 = int (?rnd k) + 10"
    "k < 500 \<longrightarrow> int (?rnd k) + 10 \<notin> set used"
    by blast
  from k(3) taken [of k] have "\<not> k < 500" by blast
  with k(1) have "k = 500" by simp
  with k(2) have "random_draw ?rnd used 0 = 60" by simp
  then have gen: "fst (generateNewTicketNumber ?rnd
      (board\<lparr>randomTwoDigitNumbers := True, usedTicketNumbers := used\<rparr>)) = 60"
    by (simp add: generateNewTicketNumber_def Let_def)
  from taken [of 50] have "(60::int) \<in> set used" by simp
  with never gen show ?thesis unfolding used_def by blast
qed





subsection \<open>Order indices after a deletion\<close>

text \<open>
  C1, evaluated on a board of three tickets and three steps with indices 0, 1, 2.
  Deleting the first ticket leaves the indices 1, 2 in the mirror and in the database:
  \<^verbatim>\<open>deleteTicket\<close> only filters the array. A ticket added next is given the array length
  2 as its index, which the last ticket already has. Deleting the first step likewise
  leaves the step indices 1, 2.
\<close>

theorem deleteTicket_leaves_gap:
  "map t_order_index (tickets board) = [0, 1, 2]
   \<and> map t_order_index (tickets (deleteTicket 1 board)) = [1, 2]
   \<and> map t_order_index (tickets_table (db (deleteTicket 1 board))) = [1, 2]
   \<and> map_option (\<lambda>w. map t_order_index (tickets w)) (addTicket (\<lambda>k. 0) (deleteTicket 1 board))
       = Some [1, 2, 2]
   \<and> map s_order_index (steps (deleteStep 1 board)) = [1, 2]"
  by (simp add: board_def board_db_def deleteTicket_def deleteStep_def addTicket_def ticketData_def fetch_def
        delete_ticket_def delete_step_def post_ticket_def Let_def generateNewTicketNumber_def
        sequential_next_def js_add_one_def set_add_def pickNextDefaultColor_def DEFAULT_COLORS_def
        next_rowid_def or_null_def or_string_def fk_violation_def)

text \<open>
  The move path does renumber: after \<^verbatim>\<open>moveTicketInArray\<close> has moved a ticket, the
  indices of the mirror are 0, 1, ... in display order.
\<close>

lemma reindex_dense: "map t_order_index (reindex ts) = map int [0..<length ts]"
proof -
  have "map t_order_index (map (\<lambda>(i, t). t\<lparr>t_order_index := int i\<rparr>) (enumerate n ts))
        = map int [n..<n + length ts]" for n
    by (induction ts arbitrary: n) (simp_all add: upt_rec)
  from this [of 0] show ?thesis by (simp add: reindex_def)
qed

lemma reindex_ids: "map t_id (reindex ts) = map t_id ts"
proof -
  have "map t_id (map (\<lambda>(i, t). t\<lparr>t_order_index := int i\<rparr>) (enumerate n ts)) = map t_id ts" for n
    by (induction ts arbitrary: n) simp_all
  then show ?thesis by (simp add: reindex_def)
qed

lemma assign_first_same:
  "distinct (map t_id ts) \<Longrightarrow> t \<in> set ts \<Longrightarrow> f t = t \<Longrightarrow>
   assign_first (\<lambda>x. t_id x = t_id t) f ts = ts"
proof (induction ts)
  case Nil
  then show ?case by simp
next
  case (Cons a ts)
  show ?case
  proof (cases "t_id a = t_id t")
    case True
    with Cons.prems have "a = t" by (auto simp: image_iff)
    with Cons.prems(3) show ?thesis by simp
  next
    case False
    with Cons show ?thesis by auto
  qed
qed

lemma put_own_index_keeps_mirror:
  assumes "distinct (map t_id (tickets w))" and "t \<in> set (tickets w)"
  shows "tickets (updateTicket (t_id t) (no_fields\<lparr>b_order_index := Some (t_order_index t)\<rparr>) w)
         = tickets w"
proof -
  have "apply_ticket_body (no_fields\<lparr>b_order_index := Some (t_order_index t)\<rparr>) t = t"
    by (simp add: apply_ticket_body_def no_fields_def)
  with assms have "assign_first (\<lambda>x. t_id x = t_id t)
      (apply_ticket_body (no_fields\<lparr>b_order_index := Some (t_order_index t)\<rparr>)) (tickets w) = tickets w"
    by (intro assign_first_same)
  then show ?thesis by (simp add: updateTicket_tickets)
qed

lemma put_all_indices_keeps_mirror:
  "distinct (map t_id (tickets w)) \<Longrightarrow> set ms \<subseteq> set (tickets w) \<Longrightarrow>
   tickets (fold (\<lambda>t. updateTicket (t_id t) (no_fields\<lparr>b_order_index := Some (t_order_index t)\<rparr>))
              ms w) = tickets w"
proof (induction ms arbitrary: w)
  case Nil
  then show ?case by simp
next
  case (Cons m ms)
  let ?w = "updateTicket (t_id m) (no_fields\<lparr>b_order_index := Some (t_order_index m)\<rparr>) w"
  from Cons.prems have keep: "tickets ?w = tickets w"
    by (intro put_own_index_keeps_mirror) simp_all
  with Cons.prems have "tickets (fold (\<lambda>t. updateTicket (t_id t)
        (no_fields\<lparr>b_order_index := Some (t_order_index t)\<rparr>)) ms ?w) = tickets ?w"
    by (intro Cons.IH) simp_all
  with keep show ?case by simp
qed

lemma distinct_insert_at:
  assumes d: "distinct (map f r)" and n: "f x \<notin> set (map f r)"
  shows "distinct (map f (take j r @ [x] @ drop j r))"
proof -
  let ?m = "map f r"
  from distinct_append [of "take j ?m" "drop j ?m"] d
  have parts: "distinct (take j ?m)" "distinct (drop j ?m)" "set (take j ?m) \<inter> set (drop j ?m) = {}"
    by simp_all
  from n have "f x \<notin> set (take j ?m)" and "f x \<notin> set (drop j ?m)"
    by (meson in_set_takeD in_set_dropD)+
  with parts show ?thesis by (simp add: take_map drop_map)
qed

lemma distinct_move:
  assumes d: "distinct (map f ts)" and k: "k < length ts"
  shows "distinct (map f (take j (take k ts @ drop (Suc k) ts) @ [ts ! k]
                          @ drop j (take k ts @ drop (Suc k) ts)))"
proof -
  have ts: "ts = take k ts @ [ts ! k] @ drop (Suc k) ts"
    using k by (simp add: id_take_nth_drop)
  from d have "distinct (map f (take k ts @ [ts ! k] @ drop (Suc k) ts))"
    using ts by simp
  then have "distinct (map f (take k ts @ drop (Suc k) ts))"
    and "f (ts ! k) \<notin> set (map f (take k ts @ drop (Suc k) ts))"
    by auto
  then show ?thesis by (rule distinct_insert_at)
qed

lemma length_insert_at: "length (take j r @ [x] @ drop j r) = Suc (length r)"
  by simp

lemma moveTicketInArray_dense:
  assumes m: "moveTicketInArray fromIdx toIdx w = Some (True, w')"
    and d: "distinct (map t_id (tickets w))"
  shows "map t_order_index (tickets w') = map int [0..<length (tickets w)]"
proof -
  let ?k = "splice_start fromIdx (length (tickets w))"
  let ?rest = "take ?k (tickets w) @ drop (Suc ?k) (tickets w)"
  let ?j = "splice_start toIdx (length ?rest)"
  let ?moved = "reindex (take ?j ?rest @ [tickets w ! ?k] @ drop ?j ?rest)"
  from m have k: "?k < length (tickets w)"
    by (auto simp: moveTicketInArray_def Let_def split: if_splits)
  with m have w': "w' = fold (\<lambda>t. updateTicket (t_id t)
        (no_fields\<lparr>b_order_index := Some (t_order_index t)\<rparr>)) ?moved (w\<lparr>tickets := ?moved\<rparr>)"
    by (auto simp: moveTicketInArray_def Let_def split: if_splits)
  have "distinct (map t_id ?moved)"
    using distinct_move [OF d k, of ?j] by (simp add: reindex_ids)
  then have "tickets w' = ?moved"
    unfolding w' by (subst put_all_indices_keeps_mirror) simp_all
  moreover have "length ?rest = length (tickets w) - 1"
    using k by simp
  then have "length (take ?j ?rest @ [tickets w ! ?k] @ drop ?j ?rest) = length (tickets w)"
    using k by (simp only: length_insert_at)
  ultimately show ?thesis by (simp add: reindex_dense)
qed

subsection \<open>Manual number edits and the used-number set\<close>

text \<open>
  A candidate that is not a number, is not positive, or is in the used-number set is
  turned down with a notice: no request is sent, and mirror, set and database stay as
  they were.
\<close>

lemma finishEditTicketNumber_rejects:
  assumes "newNum = None \<or> (\<exists>n. newNum = Some n \<and> (n \<le> 0 \<or> n \<in> set (usedTicketNumbers w)))"
  shows "\<exists>msg. finishEditTicketNumber ticketId newNum w = w\<lparr>notices := notices w @ [msg]\<rparr>"
  using assms by (auto simp: finishEditTicketNumber_def showError_def)

text \<open>
  C3, evaluated on the board: ticket 1 carries number 5 and is renumbered to 9 with the
  server reachable. The edit is accepted and reaches mirror and database, but the
  used-number set is left as 5, 7, 12: \<^verbatim>\<open>updateTicket\<close> has already written 9 into the
  ticket object when \<^verbatim>\<open>usedTicketNumbers.delete(t.ticket_number)\<close> runs, so the number
  just added is deleted again and the old number 5 stays.
\<close>

theorem finishEditTicketNumber_drops_new_number:
  "usedTicketNumbers board = [5, 7, 12]
   \<and> map ticket_number (tickets board) = [5, 7, 12]
   \<and> usedTicketNumbers (finishEditTicketNumber 1 (Some 9) board) = [5, 7, 12]
   \<and> map ticket_number (tickets (finishEditTicketNumber 1 (Some 9) board)) = [9, 7, 12]
   \<and> map ticket_number (tickets_table (db (finishEditTicketNumber 1 (Some 9) board))) = [9, 7, 12]"
  by (simp add: board_def board_db_def finishEditTicketNumber_def updateTicket_def fetch_def
        put_ticket_def apply_ticket_body_def no_fields_def set_add_def set_delete_def Let_def)

text \<open>
  C4, evaluated on the board: before the edit every ticket number of the mirror is in
  the used-number set; after ticket 2 is renumbered to 30 the mirror shows 30, which
  the set does not hold.
\<close>

theorem used_numbers_miss_edited_number:
  "set (map ticket_number (tickets board)) \<subseteq> set (usedTicketNumbers board)
   \<and> \<not> set (map ticket_number (tickets (finishEditTicketNumber 2 (Some 30) board)))
        \<subseteq> set (usedTicketNumbers (finishEditTicketNumber 2 (Some 30) board))"
  by (simp add: board_def board_db_def finishEditTicketNumber_def updateTicket_def fetch_def
        put_ticket_def apply_ticket_body_def no_fields_def set_add_def set_delete_def Let_def)

text \<open>Loading, deleting and adding tickets keep the mirror's numbers inside the set.\<close>

lemma set_fold_set_add: "set (fold set_add xs ys) = set xs \<union> set ys"
  by (induction xs arbitrary: ys) (auto simp: set_set_add)

lemma loadTickets_online:
  "online w \<Longrightarrow> loadTickets w =
     w\<lparr>sent := sent w @ [GET_tickets],
       tickets := sort_key (\<lambda>t. (t_order_index t, ticket_number t)) (tickets_table (db w)),
       usedTicketNumbers :=
         fold set_add
           (map ticket_number (sort_key (\<lambda>t. (t_order_index t, ticket_number t)) (tickets_table (db w))))
           (usedTicketNumbers w)\<rparr>"
  by (simp add: loadTickets_def fetch_online get_tickets_def)

lemma loadTickets_offline:
  "\<not> online w \<Longrightarrow> loadTickets w =
     w\<lparr>sent := sent w @ [GET_tickets],
       notices := notices w @ [''Failed to load tickets. Make sure the server is running.'']\<rparr>"
  by (simp add: loadTickets_def fetch_offline showError_def)

lemma loadTickets_covered:
  "numbers_covered w \<Longrightarrow> numbers_covered (loadTickets w)"
  by (cases "online w")
     (simp_all add: numbers_covered_def loadTickets_online loadTickets_offline set_fold_set_add)

lemma deleteTicket_tickets:
  "tickets (deleteTicket i w) =
     (if online w then filter (\<lambda>t. t_id t \<noteq> i) (tickets w) else tickets w)"
  by (simp add: deleteTicket_def fetch_online fetch_offline showError_def)

lemma deleteTicket_used: "usedTicketNumbers (deleteTicket i w) = usedTicketNumbers w"
  by (cases "online w") (simp_all add: deleteTicket_def fetch_online fetch_offline showError_def)

lemma deleteTicket_covered:
  "numbers_covered w \<Longrightarrow> numbers_covered (deleteTicket i w)"
  by (auto simp: numbers_covered_def deleteTicket_tickets deleteTicket_used)


lemma post_ticket_row_number:
  "fst (post_ticket b d) = (st, TicketRow row) \<Longrightarrow> b_ticket_number b = Some (ticket_number row)"
  by (cases "b_ticket_number b") (auto simp: post_ticket_def Let_def split: if_splits)

lemma generate_adds:
  "generateNewTicketNumber rnd w = (n, w1) \<Longrightarrow>
   w1 = w\<lparr>usedTicketNumbers := set_add n (usedTicketNumbers w)\<rparr>"
  by (cases "randomTwoDigitNumbers w") (auto simp: generateNewTicketNumber_def Let_def)

lemma addTicket_covered:
  assumes cov: "numbers_covered w" and add: "addTicket rnd w = Some w'"
  shows "numbers_covered w'"
proof -
  obtain n w1 where g: "generateNewTicketNumber rnd w = (n, w1)"
    by (cases "generateNewTicketNumber rnd w")
  have w1: "w1 = w\<lparr>usedTicketNumbers := set_add n (usedTicketNumbers w)\<rparr>"
    by (rule generate_adds [OF g])
  define td where "td = ticketData n w1"
  have td: "b_ticket_number td = Some n" by (simp add: td_def ticketData_def Let_def)
  have a: "addTicket rnd w =
      (case fetch (POST_ticket td) w1 of
         (None, w2) \<Rightarrow> Some (showError ''Failed to add ticket.'' w2)
       | (Some (status, TicketRow newTicket), w2) \<Rightarrow> Some (w2\<lparr>tickets := tickets w2 @ [newTicket]\<rparr>)
       | (Some other, w2) \<Rightarrow> None)"
    by (simp add: addTicket_def g td_def)
  have goal: "numbers_covered w'"
    if "tickets w' = tickets w \<or> (\<exists>row. ticket_number row = n \<and> tickets w' = tickets w @ [row])"
      and "usedTicketNumbers w' = set_add n (usedTicketNumbers w)"
  proof -
    from that(1) have "set (map ticket_number (tickets w')) \<subseteq> insert n (set (map ticket_number (tickets w)))"
      by auto
    moreover from that(2) have "set (usedTicketNumbers w') = insert n (set (usedTicketNumbers w))"
      by (simp add: set_set_add)
    ultimately show ?thesis using cov unfolding numbers_covered_def by blast
  qed
  show ?thesis
  proof (cases "online w1")
    case False
    with add a have "w' = showError ''Failed to add ticket.'' (w1\<lparr>sent := sent w1 @ [POST_ticket td]\<rparr>)"
      by (simp add: fetch_offline)
    then show ?thesis by (intro goal) (simp_all add: w1 showError_def)
  next
    case True
    obtain st bd where r: "fst (post_ticket td (db w1)) = (st, bd)"
      by (cases "fst (post_ticket td (db w1))")
    from True add a r obtain row where bd: "bd = TicketRow row"
      and w': "w' = w1\<lparr>sent := sent w1 @ [POST_ticket td], db := snd (post_ticket td (db w1)),
                       tickets := tickets w1 @ [row]\<rparr>"
      by (cases bd) (simp_all add: fetch_online)
    from post_ticket_row_number [of td "db w1" st row] r bd td have "ticket_number row = n" by simp
    then show ?thesis by (intro goal) (simp_all add: w' w1)
  qed
qed

text \<open>
  Creating a ticket on a mirror whose indices are 0, 1, ... in display order keeps them
  so: the gap only comes from deleting.
\<close>

lemma post_ticket_row_index:
  "fst (post_ticket b d) = (st, TicketRow row) \<Longrightarrow> b_order_index b = Some i \<Longrightarrow>
   t_order_index row = i"
  by (cases "b_ticket_number b") (auto simp: post_ticket_def Let_def split: if_splits)

lemma addTicket_dense:
  assumes dense: "map t_order_index (tickets w) = map int [0..<length (tickets w)]"
    and add: "addTicket rnd w = Some w'" and on: "online w"
  shows "map t_order_index (tickets w') = map int [0..<length (tickets w')]"
proof -
  obtain n w1 where g: "generateNewTicketNumber rnd w = (n, w1)"
    by (cases "generateNewTicketNumber rnd w")
  have w1: "w1 = w\<lparr>usedTicketNumbers := set_add n (usedTicketNumbers w)\<rparr>"
    by (rule generate_adds [OF g])
  define td where "td = ticketData n w1"
  have td: "b_order_index td = Some (int (length (tickets w)))"
    by (simp add: td_def ticketData_def Let_def w1)
  have a: "addTicket rnd w =
      (case fetch (POST_ticket td) w1 of
         (None, w2) \<Rightarrow> Some (showError ''Failed to add ticket.'' w2)
       | (Some (status, TicketRow newTicket), w2) \<Rightarrow> Some (w2\<lparr>tickets := tickets w2 @ [newTicket]\<rparr>)
       | (Some other, w2) \<Rightarrow> None)"
    by (simp add: addTicket_def g td_def)
  from on have on1: "online w1" by (simp add: w1)
  obtain st bd where r: "fst (post_ticket td (db w1)) = (st, bd)"
    by (cases "fst (post_ticket td (db w1))")
  from on1 add a r obtain row where bd: "bd = TicketRow row"
    and w': "w' = w1\<lparr>sent := sent w1 @ [POST_ticket td], db := snd (post_ticket td (db w1)),
                     tickets := tickets w1 @ [row]\<rparr>"
    by (cases bd) (simp_all add: fetch_online)
  from post_ticket_row_index [of td "db w1" st row] r bd td
  have "t_order_index row = int (length (tickets w))" by simp
  with dense show ?thesis by (simp add: w' w1)
qed

subsection \<open>Debounced notes\<close>

lemma updateTicket_sent: "sent (updateTicket i b w) = sent w @ [PUT_ticket i b]"
  by (cases "online w") (simp_all add: updateTicket_def fetch_online fetch_offline showError_def)

lemma updateTicket_timer_state:
  "timers (updateTicket i b w) = timers w"
  "notesSaveTimers (updateTicket i b w) = notesSaveTimers w"
  "next_timer (updateTicket i b w) = next_timer w"
  "clock (updateTicket i b w) = clock w"
  by (cases "online w"; simp add: updateTicket_def fetch_online fetch_offline showError_def)+

lemma find_assign_first_other:
  "(\<And>x. P x \<Longrightarrow> \<not> Q x \<and> \<not> Q (f x)) \<Longrightarrow> find Q (assign_first P f xs) = find Q xs"
  by (induction xs) auto

lemma updateTicket_find_other:
  "i \<noteq> k \<Longrightarrow>
   find (\<lambda>t. t_id t = k) (tickets (updateTicket i b w)) = find (\<lambda>t. t_id t = k) (tickets w)"
proof -
  assume ne: "i \<noteq> k"
  have "find (\<lambda>t. t_id t = k) (assign_first (\<lambda>t. t_id t = i) (apply_ticket_body b) (tickets w))
        = find (\<lambda>t. t_id t = k) (tickets w)"
    by (rule find_assign_first_other) (use ne in \<open>simp add: apply_ticket_body_def\<close>)
  then show ?thesis by (simp add: updateTicket_tickets)
qed

lemma run_timer_sent:
  "sent (run_timer p w) =
     sent w @ [PUT_ticket (pt_ticket p) (no_fields\<lparr>b_notes := Some (pt_text p)\<rparr>)]"
  by (simp add: run_timer_def Let_def updateTicket_sent)

lemma run_timer_timer_state:
  "timers (run_timer p w) = filter (\<lambda>q. pt_handle q \<noteq> pt_handle p) (timers w)"
  "notesSaveTimers (run_timer p w) = (notesSaveTimers w)(pt_ticket p := None)"
  "next_timer (run_timer p w) = next_timer w"
  "clock (run_timer p w) = clock w"
  by (simp_all add: run_timer_def Let_def updateTicket_timer_state)

lemma run_timer_find_other:
  "pt_ticket p \<noteq> k \<Longrightarrow>
   find (\<lambda>t. t_id t = k) (tickets (run_timer p w)) = find (\<lambda>t. t_id t = k) (tickets w)"
  by (simp add: run_timer_def Let_def updateTicket_find_other)

lemma saved_notes_append:
  "sent w' = sent w @ rs \<Longrightarrow>
   saved_notes k w' = saved_notes k w @ List.map_filter (notes_put k) rs"
  by (simp add: saved_notes_def map_filter_def)

lemma saved_notes_clock: "saved_notes k (w\<lparr>clock := c\<rparr>) = saved_notes k w"
  by (simp add: saved_notes_def)

lemma run_timer_saved:
  "saved_notes k (run_timer p w) =
     saved_notes k w @ (if pt_ticket p = k then [pt_text p] else [])"
  using saved_notes_append [OF run_timer_sent, of k p w]
  by (simp add: map_filter_def no_fields_def)

lemma fold_run_timer_saved:
  "saved_notes k (fold run_timer ps w) =
     saved_notes k w @ map pt_text (filter (\<lambda>p. pt_ticket p = k) ps)"
  by (induction ps arbitrary: w) (simp_all add: run_timer_saved)

lemma fold_run_timer_timers:
  "timers (fold run_timer ps w) =
     filter (\<lambda>q. pt_handle q \<notin> set (map pt_handle ps)) (timers w)"
  by (induction ps arbitrary: w) (auto simp: run_timer_timer_state intro: filter_cong)

lemma fold_run_timer_map:
  "notesSaveTimers (fold run_timer ps w) k =
     (if k \<in> set (map pt_ticket ps) then None else notesSaveTimers w k)"
  by (induction ps arbitrary: w) (auto simp: run_timer_timer_state)

lemma fold_run_timer_counter:
  "next_timer (fold run_timer ps w) = next_timer w"
  "clock (fold run_timer ps w) = clock w"
  by (induction ps arbitrary: w) (simp_all add: run_timer_timer_state)

lemma fold_run_timer_find:
  "k \<notin> set (map pt_ticket ps) \<Longrightarrow>
   find (\<lambda>t. t_id t = k) (tickets (fold run_timer ps w)) = find (\<lambda>t. t_id t = k) (tickets w)"
  by (induction ps arbitrary: w) (auto simp: run_timer_find_other)

lemma elapse_fold: "elapse ms w = fold run_timer (due_timers ms w) (w\<lparr>clock := clock w + ms\<rparr>)"
  by (simp add: elapse_def due_timers_def Let_def)

lemma set_due_timers: "set (due_timers ms w) = {p \<in> set (timers w). pt_due p \<le> clock w + ms}"
  by (auto simp: due_timers_def)

lemma filter_due_timers:
  "filter P (due_timers ms w) =
     sort_key pt_due (filter (\<lambda>p. pt_due p \<le> clock w + ms) (filter P (timers w)))"
  by (simp add: due_timers_def filter_sort conj_commute)

lemma timers_ok_elapse:
  assumes "timers_ok w"
  shows "timers_ok (elapse ms w)"
proof -
  let ?ps = "due_timers ms w"
  let ?w = "fold run_timer ?ps (w\<lparr>clock := clock w + ms\<rparr>)"
  have t: "timers ?w = filter (\<lambda>q. pt_handle q \<notin> set (map pt_handle ?ps)) (timers w)"
    by (simp add: fold_run_timer_timers)
  have d: "distinct (map pt_handle (timers ?w))"
    using assms by (simp add: t timers_ok_def distinct_map_filter)
  have "pt_handle p < next_timer ?w \<and> notesSaveTimers ?w (pt_ticket p) = Some (pt_handle p)"
    if p: "p \<in> set (timers ?w)" for p
  proof -
    from p have pin: "p \<in> set (timers w)" and nf: "pt_handle p \<notin> set (map pt_handle ?ps)"
      by (simp_all add: t)
    from assms pin have lt: "pt_handle p < next_timer w"
      and mp: "notesSaveTimers w (pt_ticket p) = Some (pt_handle p)"
      by (simp_all add: timers_ok_def)
    have "pt_ticket p \<notin> set (map pt_ticket ?ps)"
    proof
      assume "pt_ticket p \<in> set (map pt_ticket ?ps)"
      then obtain q where q: "q \<in> set ?ps" "pt_ticket q = pt_ticket p" by auto
      then have "q \<in> set (timers w)" by (simp add: set_due_timers)
      with assms have "notesSaveTimers w (pt_ticket q) = Some (pt_handle q)"
        by (simp add: timers_ok_def)
      with mp q(2) have "pt_handle q = pt_handle p" by simp
      with q(1) have "pt_handle p \<in> set (map pt_handle ?ps)" by (metis image_eqI set_map)
      with nf show False by contradiction
    qed
    with lt mp show ?thesis by (simp add: fold_run_timer_map fold_run_timer_counter)
  qed
  with d show ?thesis by (simp add: elapse_fold timers_ok_def)
qed


lemma updateTicketNotes_eq:
  "updateTicketNotes k x w =
     w\<lparr>tickets := assign_first (\<lambda>t. t_id t = k) (\<lambda>t. t\<lparr>t_notes := x\<rparr>) (tickets w),
       timers :=
         filter (\<lambda>p. Some (pt_handle p) \<noteq> notesSaveTimers w k) (timers w)
         @ [\<lparr>pt_handle = next_timer w, pt_due = clock w + 400, pt_ticket = k, pt_text = x\<rparr>],
       next_timer := Suc (next_timer w),
       notesSaveTimers := (notesSaveTimers w)(k \<mapsto> next_timer w)\<rparr>"
  by (cases "notesSaveTimers w k")
     (simp_all add: updateTicketNotes_def clearTimeout_def setTimeout_def Let_def)

lemma updateTicketNotes_mirror:
  "find (\<lambda>t. t_id t = k) (tickets (updateTicketNotes k x w)) =
     map_option (\<lambda>t. t\<lparr>t_notes := x\<rparr>) (find (\<lambda>t. t_id t = k) (tickets w))"
  by (simp add: updateTicketNotes_eq find_assign_first)

lemma updateTicketNotes_sent: "sent (updateTicketNotes k x w) = sent w"
  by (simp add: updateTicketNotes_eq)

lemma cleared_for_ticket:
  assumes "timers_ok w"
  shows "filter (\<lambda>p. pt_ticket p = k)
           (filter (\<lambda>p. Some (pt_handle p) \<noteq> notesSaveTimers w k) (timers w)) = []"
proof -
  have "\<not> (pt_ticket p = k \<and> Some (pt_handle p) \<noteq> notesSaveTimers w k)"
    if "p \<in> set (timers w)" for p
    using assms that by (auto simp: timers_ok_def)
  then show ?thesis unfolding filter_filter filter_empty_conv by blast
qed

lemma timers_ok_updateTicketNotes:
  assumes ok: "timers_ok w"
  shows "timers_ok (updateTicketNotes k x w)"
proof -
  let ?old = "filter (\<lambda>p. Some (pt_handle p) \<noteq> notesSaveTimers w k) (timers w)"
  have old: "pt_handle p < next_timer w \<and> notesSaveTimers w (pt_ticket p) = Some (pt_handle p)
             \<and> pt_ticket p \<noteq> k"
    if "p \<in> set ?old" for p
    using ok that by (auto simp: timers_ok_def)
  have "distinct (map pt_handle ?old)"
    using ok by (simp add: timers_ok_def distinct_map_filter)
  moreover have "next_timer w \<notin> set (map pt_handle ?old)"
    using old by fastforce
  ultimately have d: "distinct (map pt_handle (timers (updateTicketNotes k x w)))"
    by (simp add: updateTicketNotes_eq)
  have "pt_handle p < next_timer (updateTicketNotes k x w)
        \<and> notesSaveTimers (updateTicketNotes k x w) (pt_ticket p) = Some (pt_handle p)"
    if "p \<in> set (timers (updateTicketNotes k x w))" for p
  proof -
    from that consider "p \<in> set ?old"
      | "p = \<lparr>pt_handle = next_timer w, pt_due = clock w + 400, pt_ticket = k, pt_text = x\<rparr>"
      by (auto simp: updateTicketNotes_eq)
    then show ?thesis
    proof cases
      case 1
      from old [OF 1] show ?thesis by (simp add: updateTicketNotes_eq)
    next
      case 2
      then show ?thesis by (simp add: updateTicketNotes_eq)
    qed
  qed
  with d show ?thesis unfolding timers_ok_def by blast
qed

lemma one_timer_per_ticket:
  assumes "timers_ok w"
  shows "length (filter (\<lambda>p. pt_ticket p = k) (timers w)) \<le> 1"
proof -
  let ?fs = "filter (\<lambda>p. pt_ticket p = k) (timers w)"
  have d: "distinct (map pt_handle ?fs)"
    using assms by (simp add: timers_ok_def distinct_map_filter)
  have same: "Some (pt_handle p) = notesSaveTimers w k" if "p \<in> set ?fs" for p
    using assms that by (auto simp: timers_ok_def)
  show ?thesis
  proof (cases ?fs)
    case Nil
    then show ?thesis by simp
  next
    case (Cons p ps)
    have "ps = []"
    proof (cases ps)
      case Nil
      then show ?thesis .
    next
      case (Cons q qs)
      with \<open>?fs = p # ps\<close> have "Some (pt_handle p) = notesSaveTimers w k"
        and "Some (pt_handle q) = notesSaveTimers w k"
        using same [of p] same [of q] by simp_all
      then have "Some (pt_handle p) = Some (pt_handle q)" by (rule trans [OF _ sym])
      then have "pt_handle p = pt_handle q" by simp
      moreover from d \<open>?fs = p # ps\<close> Cons have "pt_handle p \<noteq> pt_handle q" by simp
      ultimately show ?thesis by contradiction
    qed
    with Cons show ?thesis by simp
  qed
qed

lemma armed_after_edit:
  assumes "timers_ok w"
  shows "armed k x (saved_notes k w) (find (\<lambda>t. t_id t = k) (tickets w) \<noteq> None)
           (updateTicketNotes k x w)"
proof -
  have "filter (\<lambda>p. pt_ticket p = k) (timers (updateTicketNotes k x w)) =
          [\<lparr>pt_handle = next_timer w, pt_due = clock (updateTicketNotes k x w) + 400,
            pt_ticket = k, pt_text = x\<rparr>]"
    using cleared_for_ticket [OF assms, of k] by (simp add: updateTicketNotes_eq)
  moreover have "saved_notes k (updateTicketNotes k x w) = saved_notes k w"
    by (simp add: saved_notes_def updateTicketNotes_sent)
  moreover have "map_option t_notes (find (\<lambda>t. t_id t = k) (tickets (updateTicketNotes k x w))) =
          (if find (\<lambda>t. t_id t = k) (tickets w) \<noteq> None then Some x else None)"
    by (cases "find (\<lambda>t. t_id t = k) (tickets w)") (simp_all add: updateTicketNotes_mirror)
  ultimately show ?thesis
    unfolding armed_def using timers_ok_updateTicketNotes [OF assms] by blast
qed

lemma armed_quiet:
  assumes a: "armed k x base present w" and gap: "gap < 400"
  shows "timers_ok (elapse gap w)"
    and "saved_notes k (elapse gap w) = base"
    and "find (\<lambda>t. t_id t = k) (tickets (elapse gap w)) = find (\<lambda>t. t_id t = k) (tickets w)"
proof -
  from a obtain h where one: "filter (\<lambda>p. pt_ticket p = k) (timers w) =
      [\<lparr>pt_handle = h, pt_due = clock w + 400, pt_ticket = k, pt_text = x\<rparr>]"
    and ok: "timers_ok w" and base: "saved_notes k w = base"
    unfolding armed_def by blast
  have none: "filter (\<lambda>p. pt_ticket p = k) (due_timers gap w) = []"
    using gap by (simp add: filter_due_timers one)
  then have notin: "k \<notin> set (map pt_ticket (due_timers gap w))"
    by (auto simp: filter_empty_conv)
  show "timers_ok (elapse gap w)" by (rule timers_ok_elapse [OF ok])
  show "saved_notes k (elapse gap w) = base"
    using base by (simp add: elapse_fold fold_run_timer_saved none saved_notes_clock)
  show "find (\<lambda>t. t_id t = k) (tickets (elapse gap w)) = find (\<lambda>t. t_id t = k) (tickets w)"
    using notin by (simp add: elapse_fold fold_run_timer_find)
qed

lemma armed_next_edit:
  assumes a: "armed k x base present w" and gap: "gap < 400"
  shows "armed k y base present (updateTicketNotes k y (elapse gap w))"
proof -
  note q = armed_quiet [OF a gap]
  from a have "map_option t_notes (find (\<lambda>t. t_id t = k) (tickets w)) =
      (if present then Some x else None)"
    unfolding armed_def by blast
  then have "(find (\<lambda>t. t_id t = k) (tickets (elapse gap w)) \<noteq> None) = present"
    by (cases "find (\<lambda>t. t_id t = k) (tickets w)") (auto simp: q(3) split: if_splits)
  with armed_after_edit [OF q(1), of k y] q(2) show ?thesis by simp
qed

lemma armed_fires:
  assumes a: "armed k x base present w" and wait: "400 \<le> wait"
  shows "saved_notes k (elapse wait w) = base @ [x]"
proof -
  from a obtain h where one: "filter (\<lambda>p. pt_ticket p = k) (timers w) =
      [\<lparr>pt_handle = h, pt_due = clock w + 400, pt_ticket = k, pt_text = x\<rparr>]"
    and base: "saved_notes k w = base"
    unfolding armed_def by blast
  have "filter (\<lambda>p. pt_ticket p = k) (due_timers wait w) =
      [\<lparr>pt_handle = h, pt_due = clock w + 400, pt_ticket = k, pt_text = x\<rparr>]"
    using wait by (simp add: filter_due_timers one)
  then show ?thesis
    using base by (simp add: elapse_fold fold_run_timer_saved saved_notes_clock)
qed

lemma armed_type_notes:
  assumes "armed k x base present w" and "\<forall>(gap, text) \<in> set rest. gap < 400"
  shows "armed k (last (x # map snd rest)) base present (type_notes k rest w)"
  using assms
proof (induction rest arbitrary: x w)
  case Nil
  then show ?case by simp
next
  case (Cons e rest)
  obtain gap y where e: "e = (gap, y)" by (cases e)
  with Cons.prems have gap: "gap < 400" and rest: "\<forall>(gap, text) \<in> set rest. gap < 400"
    by simp_all
  from armed_next_edit [OF Cons.prems(1) gap, of y]
  have "armed k (last (y # map snd rest)) base present
          (type_notes k rest (updateTicketNotes k y (elapse gap w)))"
    by (rule Cons.IH [OF _ rest])
  then show ?case by (simp add: e)
qed

text \<open>
  C5. From a state whose timer table is consistent, take a notes edit of ticket \<open>k\<close>
  followed by further edits of \<open>k\<close>, each less than 400 ms after the one before. Right
  after the last edit the mirror shows the last text on the ticket (so also after each
  earlier edit, the burst up to it being such a burst), no ticket has more than one
  pending save, the pending save of \<open>k\<close> carries the last text, and no notes request for
  \<open>k\<close> has been issued since the burst began. Once 400 ms or more pass without input,
  exactly one notes request for \<open>k\<close> has been issued, carrying the last text.
\<close>

theorem notes_debounce:
  assumes "timers_ok w" and "\<forall>(gap, text) \<in> set rest. gap < 400" and "400 \<le> wait"
  shows "let w1 = type_notes k rest (updateTicketNotes k text0 w);
             final = last (text0 # map snd rest)
         in map_option t_notes (find (\<lambda>t. t_id t = k) (tickets w1)) =
              map_option (\<lambda>t. final) (find (\<lambda>t. t_id t = k) (tickets w))
          \<and> (\<forall>i. length (filter (\<lambda>p. pt_ticket p = i) (timers w1)) \<le> 1)
          \<and> map pt_text (filter (\<lambda>p. pt_ticket p = k) (timers w1)) = [final]
          \<and> saved_notes k w1 = saved_notes k w
          \<and> saved_notes k (elapse wait w1) = saved_notes k w @ [final]"
proof -
  let ?w1 = "type_notes k rest (updateTicketNotes k text0 w)"
  let ?final = "last (text0 # map snd rest)"
  have a: "armed k ?final (saved_notes k w) (find (\<lambda>t. t_id t = k) (tickets w) \<noteq> None) ?w1"
    by (rule armed_type_notes [OF armed_after_edit [OF assms(1)] assms(2)])
  then have ok: "timers_ok ?w1" unfolding armed_def by blast
  have m: "map_option t_notes (find (\<lambda>t. t_id t = k) (tickets ?w1)) =
              map_option (\<lambda>t. ?final) (find (\<lambda>t. t_id t = k) (tickets w))"
    using a unfolding armed_def by (cases "find (\<lambda>t. t_id t = k) (tickets w)") auto
  have one: "\<forall>i. length (filter (\<lambda>p. pt_ticket p = i) (timers ?w1)) \<le> 1"
    using one_timer_per_ticket [OF ok] by blast
  have p: "map pt_text (filter (\<lambda>p. pt_ticket p = k) (timers ?w1)) = [?final]"
    using a unfolding armed_def by auto
  have s: "saved_notes k ?w1 = saved_notes k w"
    using a unfolding armed_def by blast
  have f: "saved_notes k (elapse wait ?w1) = saved_notes k w @ [?final]"
    by (rule armed_fires [OF a assms(3)])
  from m one p s f show ?thesis unfolding Let_def by blast
qed


theorem notes_debounce_witness:
  "timers_ok board \<and> (50::nat) < 400 \<and> (400::nat) \<le> 400
   \<and> saved_notes 1 board = []
   \<and> find (\<lambda>t. t_id t = 1) (tickets board) \<noteq> None
   \<and> map_option t_notes
        (find (\<lambda>t. t_id t = 1)
           (tickets (type_notes 1 [(50, ''ab''), (50, ''abc'')] (updateTicketNotes 1 ''a'' board))))
       = Some ''abc''
   \<and> saved_notes 1 (type_notes 1 [(50, ''ab''), (50, ''abc'')] (updateTicketNotes 1 ''a'' board)) = []
   \<and> saved_notes 1
        (elapse 400 (type_notes 1 [(50, ''ab''), (50, ''abc'')] (updateTicketNotes 1 ''a'' board)))
       = [''abc'']"
proof -
  have h1: "timers_ok board" by (simp add: timers_ok_def board_def)
  have h2: "\<forall>(gap, text) \<in> set [(50::nat, ''ab''), (50, ''abc'')]. gap < 400" by simp
  have h3: "(400::nat) \<le> 400" by simp
  have s0: "saved_notes 1 board = []" by (simp add: saved_notes_def board_def map_filter_def)
  have f0: "find (\<lambda>t. t_id t = 1) (tickets board) \<noteq> None" by (simp add: board_def board_db_def)
  from notes_debounce [OF h1 h2 h3, of 1 "''a''"] s0 f0 h1 show ?thesis
    unfolding Let_def by auto
qed

end
